theory Spec2Isabelle
  imports Complex_Main
begin

section \<open>Charge/discharge optimizer: the data model of control.py\<close>

text \<open>
  Python floats are idealised as \<^typ>\<open>real\<close>: comparisons and products are exact, and
  there is no NaN. Division is modelled by \<open>pdiv\<close>, which raises on a zero divisor as
  Python's \<open>/\<close> does.
\<close>

datatype error =
    ValueError nat          \<comment> \<open>raised by the price check, carrying the period index\<close>
  | ZeroDivisionError
  | AttributeError          \<comment> \<open>\<open>self.g_in\<close> read before it was ever assigned, or \<open>None.SetCoefficient\<close>\<close>
  | UnboundLocalError       \<comment> \<open>the local \<open>cap\<close> read before assignment\<close>

definition pdiv :: "real \<Rightarrow> real \<Rightarrow> error + real" where
  "pdiv x y = (if y = 0 then Inl ZeroDivisionError else Inr (x / y))"

definition bind_err :: "error + 'a \<Rightarrow> ('a \<Rightarrow> error + 'b) \<Rightarrow> error + 'b" where
  "bind_err r f = (case r of Inl e \<Rightarrow> Inl e | Inr x \<Rightarrow> f x)"

text \<open>The dataclass \<open>FutureData\<close>.\<close>

record FutureData =
  price_buy :: real
  price_sell :: real
  load :: real
  pv :: real

text \<open>
  The hardware object is supplied by the caller; \<open>_setup\<close> reads exactly these
  attributes of it.
\<close>

record Hardware =
  capacity :: real
  batt_min_soc :: real
  batt_max_soc :: real
  batt_max_chg :: real
  batt_max_dis :: real
  batt_eff_chg :: real
  batt_eff_dis :: real
  inv_max_chg :: real
  inv_max_dis :: real
  inv_eff_chg :: real
  inv_eff_dis :: real
  grid_max_in :: real
  grid_max_out :: real

text \<open>
  Forecast points are objects: the caller's sequence holds references, and the heap maps a
  reference to the object's current fields. Two entries of the sequence may be the same
  object.
\<close>

type_synonym ref = nat
type_synonym heap = "ref \<Rightarrow> FutureData"

subsection \<open>The linear solver's interface (pywraplp)\<close>

text \<open>
  The solver is an external library. Its state is the list of variables and the list of
  constraints it owns, the objective, and the solution values of the last solve. A
  variable or constraint handle is its index in the solver. \<open>SetCoefficient\<close>
  overwrites the coefficient of a variable; an unset coefficient is 0.
\<close>

datatype ext = MInf | Fin real | PInf

datatype vname = Name string | Indexed string nat
  \<comment> \<open>\<open>Indexed p i\<close> is the f-string \<open>f"{p}{i}"\<close>\<close>

record NumVar_t =
  v_lb :: ext
  v_ub :: ext
  v_name :: vname

record Constraint_t =
  c_lb :: real
  c_ub :: real
  coef :: "nat \<Rightarrow> real"

record Solver =
  svars :: "NumVar_t list"
  sconstrs :: "Constraint_t list"
  obj_coef :: "nat \<Rightarrow> real"
  obj_max :: bool
  solution :: "nat \<Rightarrow> real"

datatype ResultStatus =
  OPTIMAL | FEASIBLE | INFEASIBLE | UNBOUNDED | ABNORMAL | MODEL_INVALID | NOT_SOLVED

definition new_Solver :: Solver where
  "new_Solver = \<lparr>svars = [], sconstrs = [], obj_coef = (\<lambda>_. 0), obj_max = False,
                 solution = (\<lambda>_. 0)\<rparr>"

definition NumVar :: "ext \<Rightarrow> ext \<Rightarrow> vname \<Rightarrow> Solver \<Rightarrow> nat \<times> Solver" where
  "NumVar lo hi nm s =
     (length (svars s), s\<lparr>svars := svars s @ [\<lparr>v_lb = lo, v_ub = hi, v_name = nm\<rparr>]\<rparr>)"

definition Constraint :: "real \<Rightarrow> real \<Rightarrow> Solver \<Rightarrow> nat \<times> Solver" where
  "Constraint lo hi s =
     (length (sconstrs s),
      s\<lparr>sconstrs := sconstrs s @ [\<lparr>c_lb = lo, c_ub = hi, coef = (\<lambda>_. 0)\<rparr>]\<rparr>)"

definition SetCoefficient :: "nat \<Rightarrow> nat \<Rightarrow> real \<Rightarrow> Solver \<Rightarrow> Solver" where
  "SetCoefficient c v k s =
     s\<lparr>sconstrs := (sconstrs s)[c := (sconstrs s ! c)\<lparr>coef := (coef (sconstrs s ! c))(v := k)\<rparr>]\<rparr>"

definition SetLb :: "nat \<Rightarrow> real \<Rightarrow> Solver \<Rightarrow> Solver" where
  "SetLb c b s = s\<lparr>sconstrs := (sconstrs s)[c := (sconstrs s ! c)\<lparr>c_lb := b\<rparr>]\<rparr>"

definition SetUb :: "nat \<Rightarrow> real \<Rightarrow> Solver \<Rightarrow> Solver" where
  "SetUb c b s = s\<lparr>sconstrs := (sconstrs s)[c := (sconstrs s ! c)\<lparr>c_ub := b\<rparr>]\<rparr>"

definition Objective_SetCoefficient :: "nat \<Rightarrow> real \<Rightarrow> Solver \<Rightarrow> Solver" where
  "Objective_SetCoefficient v k s = s\<lparr>obj_coef := (obj_coef s)(v := k)\<rparr>"

definition SetMaximization :: "Solver \<Rightarrow> Solver" where
  "SetMaximization s = s\<lparr>obj_max := True\<rparr>"

text \<open>
  The solving algorithm is a parameter \<open>engine\<close>: from the solver's state it gives the
  reported status and the values \<open>solution_value()\<close> will return afterwards.
\<close>

type_synonym engine = "Solver \<Rightarrow> ResultStatus \<times> (nat \<Rightarrow> real)"

definition Solve :: "engine \<Rightarrow> Solver \<Rightarrow> ResultStatus \<times> Solver" where
  "Solve eng s = (case eng s of (st, x) \<Rightarrow> (st, s\<lparr>solution := x\<rparr>))"

definition solution_value :: "nat \<Rightarrow> Solver \<Rightarrow> real" where
  "solution_value v s = solution s v"




subsection \<open>The class \<open>Model\<close>\<close>

record Constraints =
  battery :: "nat list"
  dc :: "nat list"
  ac :: "nat list"
  price :: "nat list"

record Model =
  hardware :: Hardware
  data :: "ref list"
  per_hour :: real
  chg_inter :: real
  chg_last :: real
  solver :: Solver
  cap_init :: nat
  constr_init :: nat
  constraints :: Constraints
  g_ins :: "nat list"
  g_outs :: "nat list"
  caps :: "nat list"
  moneys :: "nat list"
  g_in :: "nat option"
  g_out :: "nat option"
  cap :: "nat option"
  money :: "nat option"

text \<open>
  The head of the loop body: \<open>if i: _pr.SetCoefficient(cap, self.chg_inter / hardware.capacity)\<close>.
  The locals \<open>_pr\<close> and \<open>cap\<close> are options: \<open>_pr\<close> starts as \<open>None\<close> and \<open>cap\<close>
  starts unbound.
\<close>

definition inter_patch :: "nat \<Rightarrow> nat option \<Rightarrow> nat option \<Rightarrow> Model \<Rightarrow> error + Model" where
  "inter_patch i pr capv self =
     (if i \<noteq> 0 then
        (case pr of None \<Rightarrow> Inl AttributeError | Some p \<Rightarrow>
         (case capv of None \<Rightarrow> Inl UnboundLocalError | Some c \<Rightarrow>
            bind_err (pdiv (chg_inter self) (capacity (hardware self)))
              (\<lambda>q. Inr (self\<lparr>solver := SetCoefficient p c q (solver self)\<rparr>))))
      else Inr self)"

text \<open>
  The price check on the point just fetched. The assignment \<open>dt.price_buy *= 1.001\<close>
  writes to the object itself; the caller stores the returned fields at the reference.
\<close>

definition price_check :: "nat \<Rightarrow> FutureData \<Rightarrow> error + FutureData" where
  "price_check i dt =
     (if price_buy dt = price_sell dt then Inr (dt\<lparr>price_buy := price_buy dt * 1.001\<rparr>)
      else if price_buy dt < price_sell dt then Inl (ValueError i)
      else Inr dt)"

text \<open>
  The rest of the loop body, from the first \<open>NumVar\<close> to \<open>self.money = money\<close>:
  ten variables, four constraints and their coefficients, for period \<open>i\<close> and point
  \<open>dt\<close>. It returns the new values of the locals \<open>cap\<close> (which is also the next
  \<open>cap_prev\<close>) and \<open>_pr\<close>. The appends to the lists of \<open>self\<close>, which the source
  interleaves with the solver calls, are collected in one update at the end: they neither
  read nor change the solver, and an exception discards the model.
\<close>

definition period :: "nat \<Rightarrow> nat \<Rightarrow> FutureData \<Rightarrow> Model \<Rightarrow> error + (nat \<times> nat \<times> Model)" where
  "period i cap_prev dt self =
    (let hw = hardware self; ph = per_hour self;
         (capv, s1) = NumVar (Fin (capacity hw * batt_min_soc hw))
                             (Fin (capacity hw * batt_max_soc hw)) (Indexed ''b'' i) (solver self)
     in
     bind_err (pdiv (batt_max_chg hw) ph) (\<lambda>q1.
     let (b_chg, s2) = NumVar (Fin 0) (Fin q1) (Indexed ''bc'' i) s1 in
     bind_err (pdiv (batt_max_dis hw) ph) (\<lambda>q2.
     let (b_dis, s3) = NumVar (Fin 0) (Fin q2) (Indexed ''bd'' i) s2 in
     bind_err (pdiv (pv dt) ph) (\<lambda>q3.
     let (s_in, s4) = NumVar (Fin 0) (Fin q3) (Indexed ''pv'' i) s3 in
     bind_err (pdiv (inv_max_chg hw) ph) (\<lambda>q4.
     let (i_chg, s5) = NumVar (Fin 0) (Fin q4) (Indexed ''ic'' i) s4 in
     bind_err (pdiv (inv_max_dis hw) ph) (\<lambda>q5.
     let (i_dis, s6) = NumVar (Fin 0) (Fin q5) (Indexed ''id'' i) s5 in
     bind_err (pdiv (load dt) ph) (\<lambda>q6.
     let (l_out, s7) = NumVar (Fin (load dt)) (Fin q6) (Indexed ''ld'' i) s6 in
     bind_err (pdiv (grid_max_in hw) ph) (\<lambda>q7.
     let (gi, s8) = NumVar (Fin 0) (Fin q7) (Indexed ''gi'' i) s7 in
     bind_err (pdiv (grid_max_out hw) ph) (\<lambda>q8.
     let (go, s9) = NumVar (Fin 0) (Fin q8) (Indexed ''go'' i) s8;
         (mo, s10) = NumVar MInf PInf (Indexed ''pr'' i) s9;
         (bt, s11) = Constraint 0 0 s10;
         s12 = SetCoefficient bt cap_prev 1 s11;
         s13 = SetCoefficient bt b_chg (batt_eff_chg hw) s12;
         s14 = SetCoefficient bt b_dis (- 1) s13;
         s15 = SetCoefficient bt capv (- 1) s14;
         (dcc, s16) = Constraint 0 0 s15;
         s17 = SetCoefficient dcc s_in 1 s16;
         s18 = SetCoefficient dcc b_dis (batt_eff_dis hw) s17;
         s19 = SetCoefficient dcc i_chg (inv_eff_chg hw) s18;
         s20 = SetCoefficient dcc b_chg (- 1) s19;
         s21 = SetCoefficient dcc i_dis (- 1) s20;
         (acc, s22) = Constraint 0 0 s21;
         s23 = SetCoefficient acc gi 1 s22;
         s24 = SetCoefficient acc i_dis (inv_eff_dis hw) s23;
         s25 = SetCoefficient acc go (- 1) s24;
         s26 = SetCoefficient acc l_out (- 1) s25;
         s27 = SetCoefficient acc i_chg (- 1) s26;
         (prc, s28) = Constraint 0 0 s27;
         s29 = SetCoefficient prc go (price_sell dt) s28;
         s30 = SetCoefficient prc gi (- price_buy dt) s29;
         s31 = SetCoefficient prc mo (- 1) s30;
         s32 = Objective_SetCoefficient mo 1 s31;
         cs = constraints self;
         self1 = self\<lparr>solver := s32,
                      constraints := cs\<lparr>battery := battery cs @ [bt], dc := dc cs @ [dcc],
                                        ac := ac cs @ [acc], price := price cs @ [prc]\<rparr>,
                      g_ins := g_ins self @ [gi], g_outs := g_outs self @ [go],
                      caps := caps self @ [capv], moneys := moneys self @ [mo]\<rparr>;
         self2 = (if i = 0
                  then self1\<lparr>g_in := Some gi, g_out := Some go, cap := Some capv, money := Some mo\<rparr>
                  else self1)
     in Inr (capv, prc, self2))))))))))"

text \<open>
  The \<open>while True\<close> loop over \<open>iter(self.data)\<close>. The counter \<open>i\<close> is the value after
  \<open>i += 1\<close> (the source starts it at -1). \<open>next(data)\<close> raising \<open>StopIteration\<close> is the
  empty list: the loop breaks, after the head of the body has run. The heap is returned also
  when an exception is raised, since the writes to the caller's objects stay.
\<close>

fun loop :: "nat \<Rightarrow> nat \<Rightarrow> nat option \<Rightarrow> nat option \<Rightarrow> ref list \<Rightarrow> Model \<Rightarrow> heap
             \<Rightarrow> (error + (nat option \<times> nat option \<times> Model)) \<times> heap" where
  "loop i cap_prev pr capv [] self h =
     (case inter_patch i pr capv self of
        Inl e \<Rightarrow> (Inl e, h)
      | Inr self1 \<Rightarrow> (Inr (pr, capv, self1), h))"
| "loop i cap_prev pr capv (r # rest) self h =
     (case inter_patch i pr capv self of
        Inl e \<Rightarrow> (Inl e, h)
      | Inr self1 \<Rightarrow>
         (case price_check i (h r) of
            Inl e \<Rightarrow> (Inl e, h)
          | Inr dt \<Rightarrow>
             (case period i cap_prev dt self1 of
                Inl e \<Rightarrow> (Inl e, h(r := dt))
              | Inr (capv', pr', self2) \<Rightarrow>
                  loop (i + 1) capv' (Some pr') (Some capv') rest self2 (h(r := dt)))))"

text \<open>\<open>Model.__init__\<close> followed by \<open>Model._setup\<close>.\<close>

definition Model_init :: "Hardware \<Rightarrow> ref list \<Rightarrow> real \<Rightarrow> real \<Rightarrow> real \<Rightarrow> heap
                          \<Rightarrow> (error + Model) \<times> heap" where
  "Model_init hw dat ph ci cl h =
    (let (ci0, s1) = NumVar (Fin (capacity hw * 0.05)) (Fin (capacity hw * 0.95))
                            (Name ''b_init'') new_Solver;
         (c0, s2) = Constraint 0 0 s1;
         s3 = SetCoefficient c0 ci0 1 s2;
         self = \<lparr>hardware = hw, data = dat, per_hour = ph, chg_inter = ci, chg_last = cl,
                 solver = s3, cap_init = ci0, constr_init = c0,
                 constraints = \<lparr>battery = [], dc = [], ac = [], price = []\<rparr>,
                 g_ins = [], g_outs = [], caps = [], moneys = [],
                 g_in = None, g_out = None, cap = None, money = None\<rparr>
     in case loop 0 ci0 None None dat self h of
          (Inl e, h') \<Rightarrow> (Inl e, h')
        | (Inr (pr, capv, self1), h') \<Rightarrow>
           (case pr of
              None \<Rightarrow> (Inr (self1\<lparr>solver := SetMaximization (solver self1)\<rparr>), h')
            | Some p \<Rightarrow>
               (case capv of
                  None \<Rightarrow> (Inl UnboundLocalError, h')
                | Some c \<Rightarrow>
                   (case pdiv cl (capacity hw) of
                      Inl e \<Rightarrow> (Inl e, h')
                    | Inr q \<Rightarrow>
                       (Inr (self1\<lparr>solver := SetMaximization (SetCoefficient p c q (solver self1))\<rparr>),
                        h')))))"

subsection \<open>Dispatch: \<open>propose\<close> and \<open>proposed\<close>\<close>

text \<open>The three lines both entry points start with, up to \<open>self.solver.Solve()\<close>.\<close>

definition rebind :: "real \<Rightarrow> Model \<Rightarrow> Solver" where
  "rebind charge self =
     (let charge' = charge * capacity (hardware self)
      in SetUb (constr_init self) charge' (SetLb (constr_init self) charge' (solver self)))"

text \<open>One result tuple, read from the solution values of four variables.\<close>

definition result_tuple :: "Model \<Rightarrow> nat \<Rightarrow> nat \<Rightarrow> nat \<Rightarrow> nat \<Rightarrow> error + (real \<times> real \<times> real)" where
  "result_tuple self gi go capv mo =
     (let s = solver self
      in bind_err (pdiv (solution_value capv s) (capacity (hardware self)))
           (\<lambda>soc. Inr ((solution_value gi s - solution_value go s) * per_hour self, soc,
                        solution_value mo s)))"

definition propose :: "engine \<Rightarrow> real \<Rightarrow> Model \<Rightarrow> (error + (real \<times> real \<times> real)) \<times> Model" where
  "propose eng charge self =
     (case Solve eng (rebind charge self) of (st, s) \<Rightarrow>
        (let self' = self\<lparr>solver := s\<rparr>
         in (case g_in self' of None \<Rightarrow> Inl AttributeError | Some gi \<Rightarrow>
             (case g_out self' of None \<Rightarrow> Inl AttributeError | Some go \<Rightarrow>
              (case cap self' of None \<Rightarrow> Inl AttributeError | Some capv \<Rightarrow>
               (case money self' of None \<Rightarrow> Inl AttributeError | Some mo \<Rightarrow>
                  result_tuple self' gi go capv mo))),
             self')))"

text \<open>
  The generator \<open>proposed\<close>, as the list of what it yields when run to its end: a list of
  results that stops after the first exception.
\<close>

fun yield_all :: "Model \<Rightarrow> (nat \<times> nat \<times> nat \<times> nat) list \<Rightarrow> (error + (real \<times> real \<times> real)) list" where
  "yield_all self [] = []"
| "yield_all self ((gi, go, capv, mo) # rest) =
     (case result_tuple self gi go capv mo of
        Inl e \<Rightarrow> [Inl e]
      | Inr t \<Rightarrow> Inr t # yield_all self rest)"

definition proposed :: "engine \<Rightarrow> real \<Rightarrow> Model \<Rightarrow> (error + (real \<times> real \<times> real)) list \<times> Model" where
  "proposed eng charge self =
     (case Solve eng (rebind charge self) of (st, s) \<Rightarrow>
        (let self' = self\<lparr>solver := s\<rparr>
         in (yield_all self' (zip (g_ins self') (zip (g_outs self') (zip (caps self') (moneys self')))),
             self')))"

section \<open>The closed form of a successful construction\<close>

text \<open>
  What one pass of the loop body adds to the solver, and what the whole loop leaves behind
  when no exception is raised. These definitions are not in the source: they describe its
  result, and the lemmas below prove that \<open>period\<close>, \<open>loop\<close> and \<open>Model_init\<close> compute
  them.
\<close>

text \<open>
  The ten variables of period \<open>i\<close>, in creation order, and its four relations as the loop
  body leaves them; \<open>nv\<close> is the number of variables the solver held before, \<open>cp\<close> the
  handle of the previous charge.
\<close>

definition period_vars :: "Hardware \<Rightarrow> real \<Rightarrow> FutureData \<Rightarrow> nat \<Rightarrow> NumVar_t list" where
  "period_vars hw ph dt i =
     [\<lparr>v_lb = Fin (capacity hw * batt_min_soc hw), v_ub = Fin (capacity hw * batt_max_soc hw), v_name = Indexed ''b'' i\<rparr>,
      \<lparr>v_lb = Fin 0, v_ub = Fin (batt_max_chg hw / ph), v_name = Indexed ''bc'' i\<rparr>,
      \<lparr>v_lb = Fin 0, v_ub = Fin (batt_max_dis hw / ph), v_name = Indexed ''bd'' i\<rparr>,
      \<lparr>v_lb = Fin 0, v_ub = Fin (pv dt / ph), v_name = Indexed ''pv'' i\<rparr>,
      \<lparr>v_lb = Fin 0, v_ub = Fin (inv_max_chg hw / ph), v_name = Indexed ''ic'' i\<rparr>,
      \<lparr>v_lb = Fin 0, v_ub = Fin (inv_max_dis hw / ph), v_name = Indexed ''id'' i\<rparr>,
      \<lparr>v_lb = Fin (load dt), v_ub = Fin (load dt / ph), v_name = Indexed ''ld'' i\<rparr>,
      \<lparr>v_lb = Fin 0, v_ub = Fin (grid_max_in hw / ph), v_name = Indexed ''gi'' i\<rparr>,
      \<lparr>v_lb = Fin 0, v_ub = Fin (grid_max_out hw / ph), v_name = Indexed ''go'' i\<rparr>,
      \<lparr>v_lb = MInf, v_ub = PInf, v_name = Indexed ''pr'' i\<rparr>]"

definition battery_row :: "Hardware \<Rightarrow> nat \<Rightarrow> nat \<Rightarrow> Constraint_t" where
  "battery_row hw nv cp =
     \<lparr>c_lb = 0, c_ub = 0,
      coef = (\<lambda>_. 0)(cp := 1, nv + 1 := batt_eff_chg hw, nv + 2 := - 1, nv := - 1)\<rparr>"

definition dc_row :: "Hardware \<Rightarrow> nat \<Rightarrow> Constraint_t" where
  "dc_row hw nv =
     \<lparr>c_lb = 0, c_ub = 0,
      coef = (\<lambda>_. 0)(nv + 3 := 1, nv + 2 := batt_eff_dis hw, nv + 4 := inv_eff_chg hw,
                         nv + 1 := - 1, nv + 5 := - 1)\<rparr>"

definition ac_row :: "Hardware \<Rightarrow> nat \<Rightarrow> Constraint_t" where
  "ac_row hw nv =
     \<lparr>c_lb = 0, c_ub = 0,
      coef = (\<lambda>_. 0)(nv + 7 := 1, nv + 5 := inv_eff_dis hw, nv + 8 := - 1, nv + 6 := - 1,
                         nv + 4 := - 1)\<rparr>"

definition price_row :: "FutureData \<Rightarrow> nat \<Rightarrow> Constraint_t" where
  "price_row dt nv =
     \<lparr>c_lb = 0, c_ub = 0,
      coef = (\<lambda>_. 0)(nv + 8 := price_sell dt, nv + 7 := - price_buy dt, nv + 9 := - 1)\<rparr>"

text \<open>The model after one pass of the loop body.\<close>

definition period_model :: "nat \<Rightarrow> nat \<Rightarrow> FutureData \<Rightarrow> Model \<Rightarrow> Model" where
  "period_model i cp dt self =
     (let s = solver self; nv = length (svars s); nc = length (sconstrs s); cs = constraints self;
          hw = hardware self;
          self1 = self\<lparr>solver := s\<lparr>svars := svars s @ period_vars hw (per_hour self) dt i,
                                   sconstrs := sconstrs s @ [battery_row hw nv cp, dc_row hw nv, ac_row hw nv, price_row dt nv],
                                   obj_coef := (obj_coef s)(nv + 9 := 1)\<rparr>,
                      constraints := cs\<lparr>battery := battery cs @ [nc], dc := dc cs @ [nc + 1],
                                        ac := ac cs @ [nc + 2], price := price cs @ [nc + 3]\<rparr>,
                      g_ins := g_ins self @ [nv + 7], g_outs := g_outs self @ [nv + 8],
                      caps := caps self @ [nv], moneys := moneys self @ [nv + 9]\<rparr>
      in if i = 0 then self1\<lparr>g_in := Some (nv + 7), g_out := Some (nv + 8), cap := Some nv, money := Some (nv + 9)\<rparr> else self1)"

text \<open>
  The price check when it does not raise, the heap after all points were visited, and the
  period at which the check first raises (the heap changes between visits, and an object may
  be visited more than once).
\<close>

definition price_fix :: "FutureData \<Rightarrow> FutureData" where
  "price_fix dt = (if price_buy dt = price_sell dt then dt\<lparr>price_buy := price_buy dt * 1.001\<rparr> else dt)"

fun heap_after :: "ref list \<Rightarrow> heap \<Rightarrow> heap" where
  "heap_after [] h = h"
| "heap_after (r # rs) h = heap_after rs (h(r := price_fix (h r)))"

fun first_violation :: "nat \<Rightarrow> ref list \<Rightarrow> heap \<Rightarrow> nat option" where
  "first_violation i [] h = None"
| "first_violation i (r # rs) h =
     (if price_buy (h r) < price_sell (h r) then Some i
      else first_violation (Suc i) rs (h(r := price_fix (h r))))"

text \<open>Handles in arithmetic progression: \<open>n\<close> values from \<open>b\<close> in steps of \<open>s\<close>.\<close>

fun idxs :: "nat \<Rightarrow> nat \<Rightarrow> nat \<Rightarrow> nat list" where
  "idxs b s 0 = []"
| "idxs b s (Suc n) = b # idxs (b + s) s n"

text \<open>All variables and all relations the loop creates for the points \<open>ds\<close>.\<close>

fun vars_from :: "Hardware \<Rightarrow> real \<Rightarrow> nat \<Rightarrow> ref list \<Rightarrow> heap \<Rightarrow> NumVar_t list" where
  "vars_from hw ph i [] h = []"
| "vars_from hw ph i (r # rs) h =
     period_vars hw ph (price_fix (h r)) i @ vars_from hw ph (Suc i) rs (h(r := price_fix (h r)))"

definition set_coef :: "nat \<Rightarrow> real \<Rightarrow> Constraint_t \<Rightarrow> Constraint_t" where
  "set_coef v k c = c\<lparr>coef := (coef c)(v := k)\<rparr>"

definition period_rows :: "Hardware \<Rightarrow> real \<Rightarrow> FutureData \<Rightarrow> nat \<Rightarrow> nat \<Rightarrow> Constraint_t list" where
  "period_rows hw q dt nv cp =
     [battery_row hw nv cp, dc_row hw nv, ac_row hw nv, set_coef nv q (price_row dt nv)]"

fun constrs_from :: "Hardware \<Rightarrow> real \<Rightarrow> nat \<Rightarrow> nat \<Rightarrow> ref list \<Rightarrow> heap \<Rightarrow> Constraint_t list" where
  "constrs_from hw q nv cp [] h = []"
| "constrs_from hw q nv cp (r # rs) h =
     period_rows hw q (price_fix (h r)) nv cp
     @ constrs_from hw q (nv + 10) nv rs (h(r := price_fix (h r)))"

text \<open>The objective after \<open>n\<close> periods: coefficient 1 on each money variable.\<close>

fun objs :: "nat \<Rightarrow> nat \<Rightarrow> (nat \<Rightarrow> real) \<Rightarrow> (nat \<Rightarrow> real)" where
  "objs b 0 f = f"
| "objs b (Suc n) f = objs (b + 10) n (f(b := 1))"

text \<open>
  The head of the loop body on the list of constraints, and the model the loop returns when
  started in state \<open>self\<close> with the locals \<open>i\<close>, \<open>cap_prev\<close>, \<open>_pr\<close> and \<open>cap\<close>.
\<close>

definition patch :: "nat \<Rightarrow> nat option \<Rightarrow> nat option \<Rightarrow> real \<Rightarrow> Constraint_t list \<Rightarrow> Constraint_t list" where
  "patch i pr capv q C =
     (if i = 0 then C
      else case pr of None \<Rightarrow> C | Some p \<Rightarrow>
           (case capv of None \<Rightarrow> C | Some c \<Rightarrow> C[p := set_coef c q (C ! p)]))"

definition loop_model :: "nat \<Rightarrow> nat \<Rightarrow> nat option \<Rightarrow> nat option \<Rightarrow> ref list \<Rightarrow> Model \<Rightarrow> heap \<Rightarrow> Model" where
  "loop_model i cp pr capv ds self h =
     (let s = solver self; nv = length (svars s); nc = length (sconstrs s); n = length ds;
          hw = hardware self; cs = constraints self
      in \<lparr>hardware = hw, data = data self, per_hour = per_hour self,
           chg_inter = chg_inter self, chg_last = chg_last self,
           solver = \<lparr>svars = svars s @ vars_from hw (per_hour self) i ds h,
                      sconstrs = patch i pr capv (chg_inter self / capacity hw) (sconstrs s)
                                 @ constrs_from hw (chg_inter self / capacity hw) nv cp ds h,
                      obj_coef = objs (nv + 9) n (obj_coef s),
                      obj_max = obj_max s, solution = solution s\<rparr>,
           cap_init = cap_init self, constr_init = constr_init self,
           constraints = \<lparr>battery = battery cs @ idxs nc 4 n, dc = dc cs @ idxs (nc + 1) 4 n,
                           ac = ac cs @ idxs (nc + 2) 4 n, price = price cs @ idxs (nc + 3) 4 n\<rparr>,
           g_ins = g_ins self @ idxs (nv + 7) 10 n, g_outs = g_outs self @ idxs (nv + 8) 10 n,
           caps = caps self @ idxs nv 10 n, moneys = moneys self @ idxs (nv + 9) 10 n,
           g_in = (if i = 0 \<and> ds \<noteq> [] then Some (nv + 7) else g_in self),
           g_out = (if i = 0 \<and> ds \<noteq> [] then Some (nv + 8) else g_out self),
           cap = (if i = 0 \<and> ds \<noteq> [] then Some nv else cap self),
           money = (if i = 0 \<and> ds \<noteq> [] then Some (nv + 9) else money self)\<rparr>)"

definition last_pr :: "nat \<Rightarrow> nat option \<Rightarrow> nat \<Rightarrow> nat option" where
  "last_pr nc pr n = (if n = 0 then pr else Some (nc + 4 * n - 1))"

definition last_cap :: "nat \<Rightarrow> nat option \<Rightarrow> nat \<Rightarrow> nat option" where
  "last_cap nv capv n = (if n = 0 then capv else Some (nv + 10 * n - 10))"

definition patched :: "nat \<Rightarrow> nat option \<Rightarrow> nat option \<Rightarrow> Model \<Rightarrow> Model" where
  "patched i pr capv self =
     self\<lparr>solver := (solver self)\<lparr>sconstrs :=
        patch i pr capv (chg_inter self / capacity (hardware self)) (sconstrs (solver self))\<rparr>\<rparr>"

text \<open>
  The state before the loop, the statement after the loop
  (\<open>_pr.SetCoefficient(cap, self.chg_last / hardware.capacity)\<close>) on the list of constraints,
  and the model a successful construction returns.
\<close>

definition init_var :: "Hardware \<Rightarrow> NumVar_t" where
  "init_var hw = \<lparr>v_lb = Fin (capacity hw * 0.05), v_ub = Fin (capacity hw * 0.95), v_name = Name ''b_init''\<rparr>"

definition init_row :: Constraint_t where
  "init_row = \<lparr>c_lb = 0, c_ub = 0, coef = (\<lambda>_. 0)(0 := 1)\<rparr>"

definition self0 :: "Hardware \<Rightarrow> ref list \<Rightarrow> real \<Rightarrow> real \<Rightarrow> real \<Rightarrow> Model" where
  "self0 hw dat ph ci cl =
     \<lparr>hardware = hw, data = dat, per_hour = ph, chg_inter = ci, chg_last = cl,
      solver = \<lparr>svars = [init_var hw], sconstrs = [init_row], obj_coef = (\<lambda>_. 0),
                 obj_max = False, solution = (\<lambda>_. 0)\<rparr>,
      cap_init = 0, constr_init = 0,
      constraints = \<lparr>battery = [], dc = [], ac = [], price = []\<rparr>,
      g_ins = [], g_outs = [], caps = [], moneys = [],
      g_in = None, g_out = None, cap = None, money = None\<rparr>"

definition final_patch :: "nat \<Rightarrow> real \<Rightarrow> Constraint_t list \<Rightarrow> Constraint_t list" where
  "final_patch n q C =
     (if n = 0 then C else C[4 * n - 1 := set_coef (10 * n - 9) q (C ! (4 * n - 1))])"

definition built :: "Hardware \<Rightarrow> ref list \<Rightarrow> real \<Rightarrow> real \<Rightarrow> real \<Rightarrow> heap \<Rightarrow> Model" where
  "built hw ds ph ci cl h =
     (let n = length ds
      in \<lparr>hardware = hw, data = ds, per_hour = ph, chg_inter = ci, chg_last = cl,
           solver = \<lparr>svars = init_var hw # vars_from hw ph 0 ds h,
                      sconstrs = init_row # final_patch n (cl / capacity hw)
                                              (constrs_from hw (ci / capacity hw) 1 0 ds h),
                      obj_coef = objs 10 n (\<lambda>_. 0), obj_max = True, solution = (\<lambda>_. 0)\<rparr>,
           cap_init = 0, constr_init = 0,
           constraints = \<lparr>battery = idxs 1 4 n, dc = idxs 2 4 n, ac = idxs 3 4 n,
                           price = idxs 4 4 n\<rparr>,
           g_ins = idxs 8 10 n, g_outs = idxs 9 10 n, caps = idxs 1 10 n, moneys = idxs 10 10 n,
           g_in = (if ds = [] then None else Some 8),
           g_out = (if ds = [] then None else Some 9),
           cap = (if ds = [] then None else Some 1),
           money = (if ds = [] then None else Some 10)\<rparr>)"

subsection \<open>Variable handles by position\<close>

text \<open>
  A variable's handle is its creation index. \<open>b_init\<close> is created first (index 0); period
  \<open>i\<close> then creates, in this order, \<open>b{i}\<close>, \<open>bc{i}\<close>, \<open>bd{i}\<close>, \<open>pv{i}\<close>, \<open>ic{i}\<close>,
  \<open>id{i}\<close>, \<open>ld{i}\<close>, \<open>gi{i}\<close>, \<open>go{i}\<close> and \<open>pr{i}\<close>: the locals \<open>cap\<close>, \<open>b_chg\<close>,
  \<open>b_dis\<close>, \<open>s_in\<close>, \<open>i_chg\<close>, \<open>i_dis\<close>, \<open>l_out\<close>, \<open>g_in\<close>, \<open>g_out\<close> and \<open>money\<close> of
  that iteration.
\<close>

definition cap_v :: "nat \<Rightarrow> nat" where "cap_v i = 10 * i + 1"
definition b_chg_v :: "nat \<Rightarrow> nat" where "b_chg_v i = 10 * i + 2"
definition b_dis_v :: "nat \<Rightarrow> nat" where "b_dis_v i = 10 * i + 3"
definition s_in_v :: "nat \<Rightarrow> nat" where "s_in_v i = 10 * i + 4"
definition i_chg_v :: "nat \<Rightarrow> nat" where "i_chg_v i = 10 * i + 5"
definition i_dis_v :: "nat \<Rightarrow> nat" where "i_dis_v i = 10 * i + 6"
definition l_out_v :: "nat \<Rightarrow> nat" where "l_out_v i = 10 * i + 7"
definition g_in_v :: "nat \<Rightarrow> nat" where "g_in_v i = 10 * i + 8"
definition g_out_v :: "nat \<Rightarrow> nat" where "g_out_v i = 10 * i + 9"
definition money_v :: "nat \<Rightarrow> nat" where "money_v i = 10 * i + 10"

subsection \<open>A concrete installation and forecast\<close>

text \<open>
  Two forecast points held by two objects; the second has equal buy and sell prices.
\<close>

definition hw_demo :: Hardware where
  "hw_demo = \<lparr>capacity = 10000, batt_min_soc = 0.1, batt_max_soc = 0.9,
               batt_max_chg = 5000, batt_max_dis = 5000, batt_eff_chg = 0.95, batt_eff_dis = 0.9,
               inv_max_chg = 5000, inv_max_dis = 5000, inv_eff_chg = 0.97, inv_eff_dis = 0.96,
               grid_max_in = 10000, grid_max_out = 10000\<rparr>"

definition heap_demo :: heap where
  "heap_demo = (\<lambda>r. if r = 1 then \<lparr>price_buy = 0.2, price_sell = 0.2, load = 400, pv = 0\<rparr>
                     else \<lparr>price_buy = 0.3, price_sell = 0.1, load = 500, pv = 2000\<rparr>)"

definition m_demo :: Model where
  "m_demo = built hw_demo [0, 1] 1 1 2 heap_demo"

text \<open>
  Two solving engines: one that reports an optimum with fixed values, and one that reports
  the problem infeasible and leaves the solution values as they were.
\<close>

definition engine_demo :: engine where
  "engine_demo = (\<lambda>s. (OPTIMAL, (\<lambda>_. 0)(9 := 1500, 1 := 5000, 10 := 150)))"

definition engine_stale :: engine where
  "engine_stale = (\<lambda>s. (INFEASIBLE, solution s))"

text \<open>A forecast point with equal, negative prices, and one with the dataclass defaults.\<close>

definition heap_neg :: heap where
  "heap_neg = (\<lambda>_. \<lparr>price_buy = - 1, price_sell = - 1, load = 0, pv = 0\<rparr>)"

definition heap_default :: heap where
  "heap_default = (\<lambda>_. \<lparr>price_buy = 0, price_sell = 0, load = 0, pv = 0\<rparr>)"

section \<open>The loop computes the closed form\<close>

lemma bind_err_Inr: "bind_err (Inr x) f = f x" by (simp add: bind_err_def)
lemma bind_err_Inl: "bind_err (Inl e) f = Inl e" by (simp add: bind_err_def)
lemma bind_err_weak_cong: "r = r' \<Longrightarrow> bind_err r f = bind_err r' f" by simp

lemma period_zero: "per_hour self = 0 \<Longrightarrow> period i cp dt self = Inl ZeroDivisionError"
  by (simp add: period_def Let_def NumVar_def pdiv_def bind_err_Inl
       cong: let_weak_cong prod.case_cong_weak bind_err_weak_cong)

lemma period_ok:
  assumes "per_hour self \<noteq> 0"
  shows "period i cp dt self =
     Inr (length (svars (solver self)), length (sconstrs (solver self)) + 3, period_model i cp dt self)"
proof (cases "solver self")
  case (fields V C Oc M X)
  show ?thesis
  proof (cases "i = 0")
    case True
    with assms fields show ?thesis
      by (simp add: period_def period_model_def period_vars_def battery_row_def dc_row_def
            ac_row_def price_row_def Let_def NumVar_def Constraint_def SetCoefficient_def
            Objective_SetCoefficient_def pdiv_def bind_err_Inr nth_append list_update_append
            eval_nat_numeral
            cong: let_weak_cong prod.case_cong_weak bind_err_weak_cong)
  next
    case False
    with assms fields show ?thesis
      by (simp add: period_def period_model_def period_vars_def battery_row_def dc_row_def
            ac_row_def price_row_def Let_def NumVar_def Constraint_def SetCoefficient_def
            Objective_SetCoefficient_def pdiv_def bind_err_Inr nth_append list_update_append
            eval_nat_numeral
            cong: let_weak_cong prod.case_cong_weak bind_err_weak_cong)
  qed
qed

lemma price_check_eq:
  "price_check i dt = (if price_buy dt < price_sell dt then Inl (ValueError i) else Inr (price_fix dt))"
  by (simp add: price_check_def price_fix_def)

lemma inter_patch_0: "inter_patch 0 pr capv self = Inr self"
  by (simp add: inter_patch_def)

lemma inter_patch_Suc:
  "capacity (hardware self) \<noteq> 0 \<Longrightarrow>
   inter_patch (Suc i) (Some p) (Some c) self =
     Inr (self\<lparr>solver := (solver self)\<lparr>sconstrs :=
            patch (Suc i) (Some p) (Some c) (chg_inter self / capacity (hardware self)) (sconstrs (solver self))\<rparr>\<rparr>)"
  by (simp add: inter_patch_def pdiv_def bind_err_Inr SetCoefficient_def patch_def set_coef_def)

lemma period_model_fields:
  "hardware (period_model i cp dt self) = hardware self"
  "data (period_model i cp dt self) = data self"
  "per_hour (period_model i cp dt self) = per_hour self"
  "chg_inter (period_model i cp dt self) = chg_inter self"
  "chg_last (period_model i cp dt self) = chg_last self"
  "cap_init (period_model i cp dt self) = cap_init self"
  "constr_init (period_model i cp dt self) = constr_init self"
  "g_ins (period_model i cp dt self) = g_ins self @ [length (svars (solver self)) + 7]"
  "g_outs (period_model i cp dt self) = g_outs self @ [length (svars (solver self)) + 8]"
  "caps (period_model i cp dt self) = caps self @ [length (svars (solver self))]"
  "moneys (period_model i cp dt self) = moneys self @ [length (svars (solver self)) + 9]"
  "g_in (period_model i cp dt self) = (if i = 0 then Some (length (svars (solver self)) + 7) else g_in self)"
  "g_out (period_model i cp dt self) = (if i = 0 then Some (length (svars (solver self)) + 8) else g_out self)"
  "cap (period_model i cp dt self) = (if i = 0 then Some (length (svars (solver self))) else cap self)"
  "money (period_model i cp dt self) = (if i = 0 then Some (length (svars (solver self)) + 9) else money self)"
  by (simp_all add: period_model_def Let_def)

lemma period_model_constraints:
  "battery (constraints (period_model i cp dt self)) = battery (constraints self) @ [length (sconstrs (solver self))]"
  "dc (constraints (period_model i cp dt self)) = dc (constraints self) @ [length (sconstrs (solver self)) + 1]"
  "ac (constraints (period_model i cp dt self)) = ac (constraints self) @ [length (sconstrs (solver self)) + 2]"
  "price (constraints (period_model i cp dt self)) = price (constraints self) @ [length (sconstrs (solver self)) + 3]"
  by (simp_all add: period_model_def Let_def)

lemma period_model_solver:
  "svars (solver (period_model i cp dt self)) =
     svars (solver self) @ period_vars (hardware self) (per_hour self) dt i"
  "sconstrs (solver (period_model i cp dt self)) =
     sconstrs (solver self) @
       [battery_row (hardware self) (length (svars (solver self))) cp,
        dc_row (hardware self) (length (svars (solver self))),
        ac_row (hardware self) (length (svars (solver self))),
        price_row dt (length (svars (solver self)))]"
  "obj_coef (solver (period_model i cp dt self)) =
     (obj_coef (solver self))(length (svars (solver self)) + 9 := 1)"
  "obj_max (solver (period_model i cp dt self)) = obj_max (solver self)"
  "solution (solver (period_model i cp dt self)) = solution (solver self)"
  by (simp_all add: period_model_def Let_def)

lemma length_period_vars: "length (period_vars hw ph dt i) = 10"
  by (simp add: period_vars_def)

lemma length_patch: "length (patch i pr capv q C) = length C"
  by (simp add: patch_def split: option.splits)

lemma inter_patch_ok:
  assumes "capacity (hardware self) \<noteq> 0" "i = 0 \<or> (\<exists>p c. pr = Some p \<and> capv = Some c)"
  shows "inter_patch i pr capv self = Inr (patched i pr capv self)"
proof (cases i)
  case 0
  then show ?thesis by (simp add: inter_patch_0 patched_def patch_def)
next
  case (Suc k)
  with assms(2) obtain p c where "pr = Some p" "capv = Some c" by auto
  with Suc assms(1) show ?thesis by (simp add: inter_patch_Suc patched_def)
qed

lemma patched_fields:
  "hardware (patched i pr capv self) = hardware self"
  "data (patched i pr capv self) = data self"
  "per_hour (patched i pr capv self) = per_hour self"
  "chg_inter (patched i pr capv self) = chg_inter self"
  "chg_last (patched i pr capv self) = chg_last self"
  "cap_init (patched i pr capv self) = cap_init self"
  "constr_init (patched i pr capv self) = constr_init self"
  "constraints (patched i pr capv self) = constraints self"
  "g_ins (patched i pr capv self) = g_ins self"
  "g_outs (patched i pr capv self) = g_outs self"
  "caps (patched i pr capv self) = caps self"
  "moneys (patched i pr capv self) = moneys self"
  "g_in (patched i pr capv self) = g_in self"
  "g_out (patched i pr capv self) = g_out self"
  "cap (patched i pr capv self) = cap self"
  "money (patched i pr capv self) = money self"
  "svars (solver (patched i pr capv self)) = svars (solver self)"
  "sconstrs (solver (patched i pr capv self)) =
     patch i pr capv (chg_inter self / capacity (hardware self)) (sconstrs (solver self))"
  "obj_coef (solver (patched i pr capv self)) = obj_coef (solver self)"
  "obj_max (solver (patched i pr capv self)) = obj_max (solver self)"
  "solution (solver (patched i pr capv self)) = solution (solver self)"
  by (simp_all add: patched_def)

lemma patch_last:
  "n = length C + 3 \<Longrightarrow>
   patch (Suc i) (Some n) (Some v) q (C @ [b, d, a, p]) = C @ [b, d, a, set_coef v q p]"
  by (simp add: patch_def list_update_append nth_append)

lemma loop_model_Nil:
  "loop_model i cp pr capv [] self h = patched i pr capv self"
  by (simp add: loop_model_def patched_def Let_def)

lemma loop_model_Cons:
  "loop_model (Suc i) (length (svars (solver self))) (Some (length (sconstrs (solver self)) + 3))
      (Some (length (svars (solver self)))) rs
      (period_model i cp (price_fix (h r)) (patched i pr capv self)) (h(r := price_fix (h r)))
   = loop_model i cp pr capv (r # rs) self h"
  by (simp add: loop_model_def Let_def period_model_fields period_model_constraints
        period_model_solver patched_fields length_period_vars length_patch patch_last
        period_rows_def eval_nat_numeral)

lemma last_step:
  "last_pr (nc + 4) (Some (nc + 3)) n = last_pr nc pr (Suc n)"
  "last_cap (nv + 10) (Some nv) n = last_cap nv capv (Suc n)"
  by (simp_all add: last_pr_def last_cap_def)

lemma loop_ok:
  assumes "per_hour self \<noteq> 0" "capacity (hardware self) \<noteq> 0"
    and "first_violation i ds h = None"
    and "i = 0 \<or> (\<exists>p c. pr = Some p \<and> capv = Some c)"
  shows "loop i cp pr capv ds self h =
           (Inr (last_pr (length (sconstrs (solver self))) pr (length ds),
                 last_cap (length (svars (solver self))) capv (length ds),
                 loop_model i cp pr capv ds self h),
            heap_after ds h)"
  using assms
proof (induction ds arbitrary: i cp pr capv self h)
  case Nil
  then show ?case
    by (simp add: inter_patch_ok loop_model_Nil last_pr_def last_cap_def)
next
  case (Cons r rs)
  let ?self1 = "patched i pr capv self"
  let ?dt = "price_fix (h r)"
  let ?self2 = "period_model i cp ?dt ?self1"
  let ?nv = "length (svars (solver self))"
  let ?nc = "length (sconstrs (solver self))"
  from Cons.prems(3) have ok: "\<not> price_buy (h r) < price_sell (h r)"
    and fv: "first_violation (Suc i) rs (h(r := ?dt)) = None"
    by (auto split: if_splits)
  have ph2: "per_hour ?self2 \<noteq> 0" and cap2: "capacity (hardware ?self2) \<noteq> 0"
    using Cons.prems(1,2) by (simp_all add: period_model_fields patched_fields)
  have ph1: "per_hour ?self1 \<noteq> 0"
    using Cons.prems(1) by (simp add: patched_fields)
  have len: "length (svars (solver ?self2)) = ?nv + 10" "length (sconstrs (solver ?self2)) = ?nc + 4"
    by (simp_all add: period_model_solver patched_fields length_period_vars length_patch)
  have "loop (Suc i) ?nv (Some (?nc + 3)) (Some ?nv) rs ?self2 (h(r := ?dt)) =
              (Inr (last_pr (length (sconstrs (solver ?self2))) (Some (?nc + 3)) (length rs),
                    last_cap (length (svars (solver ?self2))) (Some ?nv) (length rs),
                    loop_model (Suc i) ?nv (Some (?nc + 3)) (Some ?nv) rs ?self2 (h(r := ?dt))),
               heap_after rs (h(r := ?dt)))"
    by (rule Cons.IH, rule ph2, rule cap2, rule fv, simp)
  then have IH: "loop (Suc i) ?nv (Some (?nc + 3)) (Some ?nv) rs ?self2 (h(r := ?dt)) =
              (Inr (last_pr (?nc + 4) (Some (?nc + 3)) (length rs),
                    last_cap (?nv + 10) (Some ?nv) (length rs),
                    loop_model (Suc i) ?nv (Some (?nc + 3)) (Some ?nv) rs ?self2 (h(r := ?dt))),
               heap_after rs (h(r := ?dt)))"
    by (simp only: len)
  have per: "period i cp ?dt ?self1 = Inr (?nv, ?nc + 3, ?self2)"
    using period_ok[OF ph1, of i cp ?dt] by (simp add: patched_fields length_patch)
  show ?case
    using ok
    by (simp add: inter_patch_ok[OF Cons.prems(2) Cons.prems(4)] price_check_eq per IH
          loop_model_Cons last_step)
qed

lemma inter_patch_keeps:
  "inter_patch i pr capv self = Inr self1 \<Longrightarrow>
   per_hour self1 = per_hour self \<and> hardware self1 = hardware self"
  by (auto simp: inter_patch_def bind_err_def pdiv_def split: if_splits option.splits)

lemma period_keeps:
  "period i cp dt self = Inr (a, b, self2) \<Longrightarrow>
   per_hour self2 = per_hour self \<and> hardware self2 = hardware self"
  by (cases "per_hour self = 0") (auto simp: period_zero period_ok period_model_fields)

lemma inter_patch_cap0:
  "capacity (hardware self) = 0 \<Longrightarrow> i \<noteq> 0 \<Longrightarrow> isl (inter_patch i pr capv self)"
  by (simp add: inter_patch_def bind_err_def pdiv_def split: option.splits)

lemma loop_fails_cap0:
  "capacity (hardware self) = 0 \<Longrightarrow> i \<noteq> 0 \<Longrightarrow> isl (fst (loop i cp pr capv ds self h))"
  using inter_patch_cap0[of self i pr capv]
  by (cases ds) (auto split: sum.splits)

lemma loop_fails_ph0:
  "per_hour self = 0 \<Longrightarrow> ds \<noteq> [] \<Longrightarrow> isl (fst (loop i cp pr capv ds self h))"
  by (cases ds) (auto simp: period_zero dest!: inter_patch_keeps split: sum.splits)

lemma loop_fails_violation:
  "first_violation i ds h \<noteq> None \<Longrightarrow> isl (fst (loop i cp pr capv ds self h))"
proof (induction ds arbitrary: i cp pr capv self h)
  case Nil
  then show ?case by simp
next
  case (Cons r rs)
  show ?case
  proof (cases "price_buy (h r) < price_sell (h r)")
    case True
    then show ?thesis by (simp add: price_check_eq split: sum.splits)
  next
    case False
    with Cons.prems have fv: "first_violation (Suc i) rs (h(r := price_fix (h r))) \<noteq> None" by simp
    have "isl (fst (loop (Suc i) a (Some b) (Some a) rs s (h(r := price_fix (h r)))))" for a b s
      by (rule Cons.IH) (rule fv)
    with False show ?thesis
      by (simp add: price_check_eq split: sum.splits prod.splits)
  qed
qed

lemma loop_violation:
  assumes "per_hour self \<noteq> 0" "capacity (hardware self) \<noteq> 0"
    and "first_violation i ds h = Some k"
    and "i = 0 \<or> (\<exists>p c. pr = Some p \<and> capv = Some c)"
  shows "fst (loop i cp pr capv ds self h) = Inl (ValueError k)"
  using assms
proof (induction ds arbitrary: i cp pr capv self h)
  case Nil
  then show ?case by simp
next
  case (Cons r rs)
  let ?self1 = "patched i pr capv self"
  let ?dt = "price_fix (h r)"
  let ?self2 = "period_model i cp ?dt ?self1"
  show ?case
  proof (cases "price_buy (h r) < price_sell (h r)")
    case True
    with Cons.prems(3) have "k = i" by simp
    with True show ?thesis
      by (simp add: inter_patch_ok[OF Cons.prems(2) Cons.prems(4)] price_check_eq)
  next
    case False
    with Cons.prems(3) have fv: "first_violation (Suc i) rs (h(r := ?dt)) = Some k" by simp
    have ph2: "per_hour ?self2 \<noteq> 0" and cap2: "capacity (hardware ?self2) \<noteq> 0"
      using Cons.prems(1,2) by (simp_all add: period_model_fields patched_fields)
    have ph1: "per_hour ?self1 \<noteq> 0"
      using Cons.prems(1) by (simp add: patched_fields)
    have per: "period i cp ?dt ?self1 =
                 Inr (length (svars (solver self)), length (sconstrs (solver self)) + 3, ?self2)"
      using period_ok[OF ph1, of i cp ?dt] by (simp add: patched_fields length_patch)
    have "fst (loop (Suc i) (length (svars (solver self))) (Some (length (sconstrs (solver self)) + 3))
                 (Some (length (svars (solver self)))) rs ?self2 (h(r := ?dt))) = Inl (ValueError k)"
      by (rule Cons.IH, rule ph2, rule cap2, rule fv, simp)
    with False show ?thesis
      by (simp add: inter_patch_ok[OF Cons.prems(2) Cons.prems(4)] price_check_eq per)
  qed
qed

lemma Model_init_unfold:
  "Model_init hw ds ph ci cl h =
     (case loop 0 0 None None ds (self0 hw ds ph ci cl) h of
          (Inl e, h') \<Rightarrow> (Inl e, h')
        | (Inr (pr, capv, self1), h') \<Rightarrow>
           (case pr of
              None \<Rightarrow> (Inr (self1\<lparr>solver := SetMaximization (solver self1)\<rparr>), h')
            | Some p \<Rightarrow>
               (case capv of
                  None \<Rightarrow> (Inl UnboundLocalError, h')
                | Some c \<Rightarrow>
                   (case pdiv cl (capacity hw) of
                      Inl e \<Rightarrow> (Inl e, h')
                    | Inr q \<Rightarrow>
                       (Inr (self1\<lparr>solver := SetMaximization (SetCoefficient p c q (solver self1))\<rparr>),
                        h')))))"
  by (simp add: Model_init_def self0_def init_var_def init_row_def NumVar_def Constraint_def
        SetCoefficient_def new_Solver_def Let_def)

lemma self0_fields:
  "per_hour (self0 hw ds ph ci cl) = ph"
  "hardware (self0 hw ds ph ci cl) = hw"
  "length (svars (solver (self0 hw ds ph ci cl))) = 1"
  "length (sconstrs (solver (self0 hw ds ph ci cl))) = 1"
  by (simp_all add: self0_def)

lemma final_model_Nil:
  "(loop_model 0 0 None None [] (self0 hw ds ph ci cl) h)
     \<lparr>solver := SetMaximization (solver (loop_model 0 0 None None [] (self0 hw ds ph ci cl) h))\<rparr>
   = built hw [] ph ci cl h \<lparr>data := ds\<rparr>"
  by (simp add: loop_model_def built_def self0_def Let_def SetMaximization_def patch_def
        final_patch_def)

lemma final_model_Cons:
  assumes "ds \<noteq> []"
  shows "(loop_model 0 0 None None ds (self0 hw ds ph ci cl) h)
     \<lparr>solver := SetMaximization (SetCoefficient (4 * length ds) (10 * length ds - 9) (cl / capacity hw)
                  (solver (loop_model 0 0 None None ds (self0 hw ds ph ci cl) h)))\<rparr>
   = built hw ds ph ci cl h"
proof -
  from assms obtain m where m: "4 * length ds = Suc m" by (cases ds) auto
  have e4: "Suc (Suc (Suc (Suc 0))) = 4" by simp
  from assms m show ?thesis
    by (simp add: loop_model_def built_def self0_def Let_def SetMaximization_def SetCoefficient_def
          patch_def final_patch_def set_coef_def numeral_2_eq_2 numeral_3_eq_3 e4)
qed

lemma Model_init_Nil: "Model_init hw [] ph ci cl h = (Inr (built hw [] ph ci cl h), h)"
  by (simp add: Model_init_unfold inter_patch_0 built_def self0_def SetMaximization_def
        final_patch_def Let_def)

lemma Model_init_ok:
  assumes "ph \<noteq> 0" "capacity hw \<noteq> 0" "first_violation 0 ds h = None"
  shows "Model_init hw ds ph ci cl h = (Inr (built hw ds ph ci cl h), heap_after ds h)"
proof (cases "ds = []")
  case True
  then show ?thesis by (simp add: Model_init_Nil)
next
  case False
  have "loop 0 0 None None ds (self0 hw ds ph ci cl) h =
          (Inr (last_pr 1 None (length ds), last_cap 1 None (length ds),
                loop_model 0 0 None None ds (self0 hw ds ph ci cl) h), heap_after ds h)"
    using loop_ok[of "self0 hw ds ph ci cl" 0 ds h None None 0] assms
    by (simp add: self0_fields)
  moreover have "last_pr 1 None (length ds) = Some (4 * length ds)"
    "last_cap 1 None (length ds) = Some (10 * length ds - 9)"
    using False by (simp_all add: last_pr_def last_cap_def)
  ultimately show ?thesis
    using False assms(2)
    by (simp add: Model_init_unfold pdiv_def final_model_Cons[OF False])
qed

lemma Model_init_success:
  assumes "Model_init hw ds ph ci cl h = (Inr m, h')" "ds \<noteq> []"
  shows "ph \<noteq> 0 \<and> capacity hw \<noteq> 0 \<and> first_violation 0 ds h = None"
proof -
  let ?l = "loop 0 0 None None ds (self0 hw ds ph ci cl) h"
  have nofail: "\<not> isl (fst ?l)"
    using assms(1) by (auto simp: Model_init_unfold split: prod.splits sum.splits)
  have "ph \<noteq> 0"
    using nofail loop_fails_ph0[of "self0 hw ds ph ci cl" ds 0 0 None None h] assms(2)
    by (auto simp: self0_fields)
  moreover have "first_violation 0 ds h = None"
  proof (rule ccontr)
    assume "first_violation 0 ds h \<noteq> None"
    from loop_fails_violation[OF this, where cp = 0 and pr = None and capv = None
        and self = "self0 hw ds ph ci cl"] nofail
    show False by simp
  qed
  moreover have "capacity hw \<noteq> 0"
  proof
    assume c0: "capacity hw = 0"
    from assms(2) obtain r rs where ds: "ds = r # rs" by (cases ds) auto
    have "isl (fst (loop (Suc 0) a (Some b) (Some a) rs s2 hh))"
      if "hardware s2 = hw" for a b s2 hh
      using loop_fails_cap0[of s2 "Suc 0"] that c0 by simp
    then have "isl (fst ?l)"
      unfolding ds
      by (auto simp: inter_patch_0 self0_fields split: sum.splits prod.splits dest!: period_keeps)
    with nofail show False by simp
  qed
  ultimately show ?thesis by simp
qed

lemma Model_init_built:
  assumes "Model_init hw ds ph ci cl h = (Inr m, h')"
  shows "m = built hw ds ph ci cl h \<and> h' = heap_after ds h"
proof (cases "ds = []")
  case True
  with assms show ?thesis by (auto simp: Model_init_Nil)
next
  case False
  from Model_init_success[OF assms False]
  have "ph \<noteq> 0" "capacity hw \<noteq> 0" "first_violation 0 ds h = None" by simp_all
  from Model_init_ok[OF this, of ci cl] assms show ?thesis by simp
qed

subsection \<open>Reading the closed form by period\<close>

lemma length_idxs: "length (idxs b s n) = n"
  by (induction n arbitrary: b) simp_all

lemma idxs_nth: "j < n \<Longrightarrow> idxs b s n ! j = b + s * j"
proof (induction n arbitrary: b j)
  case 0
  then show ?case by simp
next
  case (Suc n)
  then show ?case by (cases j) (simp_all add: add.assoc)
qed

lemma set_idxs: "set (idxs b s n) = (\<lambda>j. b + s * j) ` {..<n}"
proof (induction n arbitrary: b)
  case 0
  then show ?case by simp
next
  case (Suc n)
  then show ?case
    by (simp add: lessThan_Suc_eq_insert_0 image_image add.assoc)
qed

lemma price_fix_idem: "price_fix (price_fix dt) = price_fix dt"
  by (simp add: price_fix_def)

lemma price_fix_upd: "price_fix ((h(r := price_fix (h r))) x) = price_fix (h x)"
  by (simp add: price_fix_idem)

lemma heap_after_notin: "r \<notin> set ds \<Longrightarrow> heap_after ds h r = h r"
  by (induction ds arbitrary: h) auto

lemma heap_after_in: "r \<in> set ds \<Longrightarrow> heap_after ds h r = price_fix (h r)"
proof (induction ds arbitrary: h)
  case Nil
  then show ?case by simp
next
  case (Cons a rs)
  show ?case
  proof (cases "r \<in> set rs")
    case True
    from Cons.IH[OF True] show ?thesis by (simp add: price_fix_idem)
  next
    case False
    with Cons.prems show ?thesis by (simp add: heap_after_notin)
  qed
qed

lemma length_vars_from: "length (vars_from hw ph i ds h) = 10 * length ds"
  by (induction ds arbitrary: i h) (simp_all add: length_period_vars)

lemma vars_from_nth:
  "j < length ds \<Longrightarrow> k < 10 \<Longrightarrow>
   vars_from hw ph i ds h ! (10 * j + k) = period_vars hw ph (price_fix (h (ds ! j))) (i + j) ! k"
proof (induction ds arbitrary: i h j)
  case Nil
  then show ?case by simp
next
  case (Cons r rs)
  show ?case
  proof (cases j)
    case 0
    with Cons.prems show ?thesis by (simp add: nth_append length_period_vars)
  next
    case (Suc j')
    with Cons.prems have "j' < length rs" by simp
    from Cons.IH[OF this Cons.prems(2), of "Suc i" "h(r := price_fix (h r))"] Suc
    show ?thesis by (simp add: nth_append length_period_vars price_fix_upd del: fun_upd_apply)
  qed
qed

lemma length_period_rows: "length (period_rows hw q dt nv cp) = 4"
  by (simp add: period_rows_def)

lemma length_constrs_from: "length (constrs_from hw q nv cp ds h) = 4 * length ds"
  by (induction ds arbitrary: nv cp h) (simp_all add: length_period_rows)

lemma constrs_from_nth:
  "j < length ds \<Longrightarrow> k < 4 \<Longrightarrow>
   constrs_from hw q nv cp ds h ! (4 * j + k) =
     period_rows hw q (price_fix (h (ds ! j))) (nv + 10 * j) (if j = 0 then cp else nv + 10 * j - 10) ! k"
proof (induction ds arbitrary: nv cp h j)
  case Nil
  then show ?case by simp
next
  case (Cons r rs)
  show ?case
  proof (cases j)
    case 0
    with Cons.prems show ?thesis by (simp add: nth_append length_period_rows)
  next
    case (Suc j')
    with Cons.prems have "j' < length rs" by simp
    from Cons.IH[OF this Cons.prems(2), of "nv + 10" nv "h(r := price_fix (h r))"] Suc
    show ?thesis
      by (cases j') (simp_all add: nth_append length_period_rows price_fix_upd add.assoc
            del: fun_upd_apply)
  qed
qed

lemma objs_apply: "objs b n f v = (if \<exists>j<n. v = b + 10 * j then 1 else f v)"
proof (induction n arbitrary: b f)
  case 0
  then show ?case by simp
next
  case (Suc n)
  have "(\<exists>j<Suc n. v = b + 10 * j) \<longleftrightarrow> v = b \<or> (\<exists>j<n. v = b + 10 + 10 * j)"
    by (auto simp: less_Suc_eq_0_disj)
  with Suc show ?case by auto
qed

subsection \<open>The built model\<close>

lemma built_fields:
  "hardware (built hw ds ph ci cl h) = hw"
  "data (built hw ds ph ci cl h) = ds"
  "per_hour (built hw ds ph ci cl h) = ph"
  "chg_inter (built hw ds ph ci cl h) = ci"
  "chg_last (built hw ds ph ci cl h) = cl"
  "cap_init (built hw ds ph ci cl h) = 0"
  "constr_init (built hw ds ph ci cl h) = 0"
  "g_ins (built hw ds ph ci cl h) = idxs 8 10 (length ds)"
  "g_outs (built hw ds ph ci cl h) = idxs 9 10 (length ds)"
  "caps (built hw ds ph ci cl h) = idxs 1 10 (length ds)"
  "moneys (built hw ds ph ci cl h) = idxs 10 10 (length ds)"
  "g_in (built hw ds ph ci cl h) = (if ds = [] then None else Some 8)"
  "g_out (built hw ds ph ci cl h) = (if ds = [] then None else Some 9)"
  "cap (built hw ds ph ci cl h) = (if ds = [] then None else Some 1)"
  "money (built hw ds ph ci cl h) = (if ds = [] then None else Some 10)"
  "battery (constraints (built hw ds ph ci cl h)) = idxs 1 4 (length ds)"
  "dc (constraints (built hw ds ph ci cl h)) = idxs 2 4 (length ds)"
  "ac (constraints (built hw ds ph ci cl h)) = idxs 3 4 (length ds)"
  "price (constraints (built hw ds ph ci cl h)) = idxs 4 4 (length ds)"
  by (simp_all add: built_def Let_def)

lemma built_solver:
  "svars (solver (built hw ds ph ci cl h)) = init_var hw # vars_from hw ph 0 ds h"
  "sconstrs (solver (built hw ds ph ci cl h)) =
     init_row # final_patch (length ds) (cl / capacity hw) (constrs_from hw (ci / capacity hw) 1 0 ds h)"
  "obj_coef (solver (built hw ds ph ci cl h)) = objs 10 (length ds) (\<lambda>_. 0)"
  "obj_max (solver (built hw ds ph ci cl h)) = True"
  by (simp_all add: built_def Let_def)

lemma length_final_patch: "length (final_patch n q C) = length C"
  by (simp add: final_patch_def)

lemma built_lengths:
  "length (svars (solver (built hw ds ph ci cl h))) = 10 * length ds + 1"
  "length (sconstrs (solver (built hw ds ph ci cl h))) = 4 * length ds + 1"
  by (simp_all add: built_solver length_vars_from length_constrs_from length_final_patch)

lemma built_var0: "svars (solver (built hw ds ph ci cl h)) ! 0 = init_var hw"
  by (simp add: built_solver)

lemma built_var:
  "j < length ds \<Longrightarrow> k < 10 \<Longrightarrow>
   svars (solver (built hw ds ph ci cl h)) ! (10 * j + k + 1) =
     period_vars hw ph (price_fix (h (ds ! j))) j ! k"
  using vars_from_nth[of j ds k hw ph 0 h] by (simp add: built_solver)

lemma built_row0: "sconstrs (solver (built hw ds ph ci cl h)) ! 0 = init_row"
  by (simp add: built_solver)

lemma built_row:
  assumes "j < length ds" "k < 3"
  shows "sconstrs (solver (built hw ds ph ci cl h)) ! (4 * j + k + 1) =
     period_rows hw (ci / capacity hw) (price_fix (h (ds ! j))) (10 * j + 1)
       (if j = 0 then 0 else 10 * j - 9) ! k"
proof -
  let ?L = "constrs_from hw (ci / capacity hw) 1 0 ds h"
  have ne: "4 * length ds - 1 \<noteq> 4 * j + k" using assms by presburger
  have k4: "k < 4" using assms(2) by simp
  have "sconstrs (solver (built hw ds ph ci cl h)) ! (4 * j + k + 1) =
          final_patch (length ds) (cl / capacity hw) ?L ! (4 * j + k)"
    by (simp add: built_solver)
  also have "\<dots> = ?L ! (4 * j + k)"
    using ne by (simp add: final_patch_def)
  also have "\<dots> = period_rows hw (ci / capacity hw) (price_fix (h (ds ! j))) (1 + 10 * j)
                        (if j = 0 then 0 else 1 + 10 * j - 10) ! k"
    by (rule constrs_from_nth[OF assms(1) k4])
  also have "1 + 10 * j = 10 * j + 1" by simp
  also have "(if j = 0 then 0 else 10 * j + 1 - 10) = (if j = 0 then 0 else 10 * j - 9)" by simp
  finally show ?thesis .
qed

lemma built_price_row:
  assumes "j < length ds"
  shows "sconstrs (solver (built hw ds ph ci cl h)) ! (4 * j + 4) =
     set_coef (10 * j + 1) (if Suc j = length ds then cl / capacity hw else ci / capacity hw)
       (price_row (price_fix (h (ds ! j))) (10 * j + 1))"
proof -
  let ?L = "constrs_from hw (ci / capacity hw) 1 0 ds h"
  let ?row = "price_row (price_fix (h (ds ! j))) (10 * j + 1)"
  have k4: "(3::nat) < 4" by simp
  have "?L ! (4 * j + 3) =
          period_rows hw (ci / capacity hw) (price_fix (h (ds ! j))) (1 + 10 * j)
            (if j = 0 then 0 else 1 + 10 * j - 10) ! 3"
    by (rule constrs_from_nth[OF assms k4])
  then have row: "?L ! (4 * j + 3) = set_coef (10 * j + 1) (ci / capacity hw) ?row"
    by (simp add: period_rows_def add.commute)
  have len: "4 * j + 3 < length ?L"
    using assms by (simp add: length_constrs_from)
  have first: "sconstrs (solver (built hw ds ph ci cl h)) ! (4 * j + 4) =
          final_patch (length ds) (cl / capacity hw) ?L ! (4 * j + 3)"
    by (simp add: built_solver add.commute)
  show ?thesis
  proof (cases "Suc j = length ds")
    case True
    then have ix: "4 * length ds - 1 = 4 * j + 3" "10 * length ds - 9 = 10 * j + 1" by auto
    have n0: "length ds \<noteq> 0" using True by auto
    have fp: "final_patch (length ds) (cl / capacity hw) ?L =
                ?L[4 * j + 3 := set_coef (10 * j + 1) (cl / capacity hw) (?L ! (4 * j + 3))]"
      unfolding final_patch_def ix using n0 by simp
    have "final_patch (length ds) (cl / capacity hw) ?L ! (4 * j + 3) =
            set_coef (10 * j + 1) (cl / capacity hw) (?L ! (4 * j + 3))"
      unfolding fp using len by simp
    also have "\<dots> = set_coef (10 * j + 1) (cl / capacity hw) ?row"
      unfolding row by (simp add: set_coef_def)
    finally show ?thesis using True first by simp
  next
    case False
    with assms have "4 * length ds - 1 \<noteq> 4 * j + 3" by auto
    then have "final_patch (length ds) (cl / capacity hw) ?L ! (4 * j + 3) = ?L ! (4 * j + 3)"
      by (simp add: final_patch_def)
    with False first row show ?thesis by simp
  qed
qed

subsection \<open>Handles, names, dispatch and feasibility\<close>

lemmas var_defs = cap_v_def b_chg_v_def b_dis_v_def s_in_v_def i_chg_v_def i_dis_v_def
  l_out_v_def g_in_v_def g_out_v_def money_v_def

lemma built_var':
  assumes "j < length ds" "1 \<le> k" "k \<le> 10"
  shows "svars (solver (built hw ds ph ci cl h)) ! (10 * j + k) =
           period_vars hw ph (price_fix (h (ds ! j))) j ! (k - 1)"
proof -
  have e: "10 * j + (k - 1) + 1 = 10 * j + k" using assms(2) by simp
  have "k - 1 < 10" using assms(3) by simp
  from built_var[OF assms(1) this, of hw ph ci cl h, unfolded e] show ?thesis .
qed

lemma built_var_names:
  assumes "i < length ds"
  shows "v_name (svars (solver (built hw ds ph ci cl h)) ! cap_v i) = Indexed ''b'' i"
    "v_name (svars (solver (built hw ds ph ci cl h)) ! b_chg_v i) = Indexed ''bc'' i"
    "v_name (svars (solver (built hw ds ph ci cl h)) ! b_dis_v i) = Indexed ''bd'' i"
    "v_name (svars (solver (built hw ds ph ci cl h)) ! s_in_v i) = Indexed ''pv'' i"
    "v_name (svars (solver (built hw ds ph ci cl h)) ! i_chg_v i) = Indexed ''ic'' i"
    "v_name (svars (solver (built hw ds ph ci cl h)) ! i_dis_v i) = Indexed ''id'' i"
    "v_name (svars (solver (built hw ds ph ci cl h)) ! l_out_v i) = Indexed ''ld'' i"
    "v_name (svars (solver (built hw ds ph ci cl h)) ! g_in_v i) = Indexed ''gi'' i"
    "v_name (svars (solver (built hw ds ph ci cl h)) ! g_out_v i) = Indexed ''go'' i"
    "v_name (svars (solver (built hw ds ph ci cl h)) ! money_v i) = Indexed ''pr'' i"
  using built_var'[OF assms, of 1 hw ph ci cl h] built_var'[OF assms, of 2 hw ph ci cl h]
  by (simp_all add: var_defs built_var'[OF assms] period_vars_def)

lemma built_handles:
  assumes "i < length ds"
  shows "battery (constraints (built hw ds ph ci cl h)) ! i = 4 * i + 1"
    "dc (constraints (built hw ds ph ci cl h)) ! i = 4 * i + 2"
    "ac (constraints (built hw ds ph ci cl h)) ! i = 4 * i + 3"
    "price (constraints (built hw ds ph ci cl h)) ! i = 4 * i + 4"
    "caps (built hw ds ph ci cl h) ! i = cap_v i"
    "g_ins (built hw ds ph ci cl h) ! i = g_in_v i"
    "g_outs (built hw ds ph ci cl h) ! i = g_out_v i"
    "moneys (built hw ds ph ci cl h) ! i = money_v i"
  using assms by (simp_all add: built_fields idxs_nth var_defs)

lemma Model_init_demo:
  "Model_init hw_demo [0, 1] 1 1 2 heap_demo = (Inr m_demo, heap_after [0, 1] heap_demo)"
  unfolding m_demo_def
  by (rule Model_init_ok) (simp_all add: hw_demo_def heap_demo_def price_fix_def)


lemma rebind_built:
  "rebind soc (built hw ds ph ci cl h) =
     (solver (built hw ds ph ci cl h))
       \<lparr>sconstrs := \<lparr>c_lb = soc * capacity hw, c_ub = soc * capacity hw, coef = (\<lambda>_. 0)(0 := 1)\<rparr>
                     # final_patch (length ds) (cl / capacity hw)
                         (constrs_from hw (ci / capacity hw) 1 0 ds h)\<rparr>"
  by (simp add: rebind_def built_def Let_def SetLb_def SetUb_def init_row_def)

lemma rebind_fields:
  "svars (rebind soc self) = svars (solver self)"
  "obj_coef (rebind soc self) = obj_coef (solver self)"
  "obj_max (rebind soc self) = obj_max (solver self)"
  "solution (rebind soc self) = solution (solver self)"
  "length (sconstrs (rebind soc self)) = length (sconstrs (solver self))"
  "k \<noteq> constr_init self \<Longrightarrow> sconstrs (rebind soc self) ! k = sconstrs (solver self) ! k"
  by (simp_all add: rebind_def Let_def SetLb_def SetUb_def)

lemma propose_built:
  assumes "ds \<noteq> []" "capacity hw \<noteq> 0"
  shows "propose eng soc (built hw ds ph ci cl h) =
     (Inr ((snd (eng (rebind soc (built hw ds ph ci cl h))) 8
             - snd (eng (rebind soc (built hw ds ph ci cl h))) 9) * ph,
           snd (eng (rebind soc (built hw ds ph ci cl h))) 1 / capacity hw,
           snd (eng (rebind soc (built hw ds ph ci cl h))) 10),
      (built hw ds ph ci cl h)
        \<lparr>solver := (rebind soc (built hw ds ph ci cl h))
                      \<lparr>solution := snd (eng (rebind soc (built hw ds ph ci cl h)))\<rparr>\<rparr>)"
  using assms
  by (simp add: propose_def Solve_def result_tuple_def solution_value_def pdiv_def bind_err_Inr
        built_fields Let_def split: prod.splits)

lemma proposed_built:
  assumes "ds \<noteq> []" "capacity hw \<noteq> 0"
  shows "\<exists>rest. proposed eng soc (built hw ds ph ci cl h) =
     (Inr ((snd (eng (rebind soc (built hw ds ph ci cl h))) 8
             - snd (eng (rebind soc (built hw ds ph ci cl h))) 9) * ph,
           snd (eng (rebind soc (built hw ds ph ci cl h))) 1 / capacity hw,
           snd (eng (rebind soc (built hw ds ph ci cl h))) 10) # rest,
      (built hw ds ph ci cl h)
        \<lparr>solver := (rebind soc (built hw ds ph ci cl h))
                      \<lparr>solution := snd (eng (rebind soc (built hw ds ph ci cl h)))\<rparr>\<rparr>)"
proof -
  from assms(1) obtain n where n: "length ds = Suc n" by (cases ds) auto
  show ?thesis
    using assms
    by (simp add: proposed_def Solve_def result_tuple_def solution_value_def pdiv_def bind_err_Inr
          built_fields n Let_def split: prod.splits)
qed

lemma built_solution: "solution (solver (built hw ds ph ci cl h)) = (\<lambda>_. 0)"
  by (simp add: built_def Let_def)

lemma result_tuple_ok:
  "capacity (hardware self) \<noteq> 0 \<Longrightarrow> \<not> isl (result_tuple self gi go capv mo)"
  by (simp add: result_tuple_def pdiv_def bind_err_Inr Let_def)

lemma yield_all_ok:
  "capacity (hardware self) \<noteq> 0 \<Longrightarrow> \<forall>t\<in>set (yield_all self xs). \<not> isl t"
proof (induction xs)
  case Nil
  then show ?case by simp
next
  case (Cons a xs)
  obtain gi go capv mo where a: "a = (gi, go, capv, mo)" by (cases a) auto
  from Cons result_tuple_ok[of self gi go capv mo] show ?case
    by (auto simp: a split: sum.splits)
qed

lemma propose_status:
  "fst (propose (\<lambda>s. (st, snd (eng s))) soc self) = fst (propose eng soc self)"
  by (simp add: propose_def Solve_def split: prod.splits)

lemma proposed_status:
  "fst (proposed (\<lambda>s. (st, snd (eng s))) soc self) = fst (proposed eng soc self)"
  by (simp add: proposed_def Solve_def split: prod.splits)

lemma proposed_hardware:
  "hardware (snd (proposed eng soc self)) = hardware self"
  by (simp add: proposed_def Solve_def Let_def split: prod.splits)



lemma Model_init_violation:
  assumes "ph \<noteq> 0" "capacity hw \<noteq> 0" "first_violation 0 ds h = Some k"
  shows "fst (Model_init hw ds ph ci cl h) = Inl (ValueError k)"
proof -
  have "fst (loop 0 0 None None ds (self0 hw ds ph ci cl) h) = Inl (ValueError k)"
    by (rule loop_violation) (use assms in \<open>simp_all add: self0_fields\<close>)
  then show ?thesis
    by (cases "loop 0 0 None None ds (self0 hw ds ph ci cl) h") (simp add: Model_init_unfold)
qed

lemma first_violation_distinct:
  "distinct ds \<Longrightarrow>
   (first_violation i ds h \<noteq> None) = (\<exists>r\<in>set ds. price_buy (h r) < price_sell (h r))"
proof (induction ds arbitrary: i h)
  case Nil
  then show ?case by simp
next
  case (Cons r rs)
  from Cons.prems have d: "distinct rs" and nin: "r \<notin> set rs" by simp_all
  have "(first_violation (Suc i) rs (h(r := price_fix (h r))) \<noteq> None) =
          (\<exists>x\<in>set rs. price_buy ((h(r := price_fix (h r))) x) < price_sell ((h(r := price_fix (h r))) x))"
    by (rule Cons.IH[OF d])
  also have "\<dots> = (\<exists>x\<in>set rs. price_buy (h x) < price_sell (h x))"
    using nin by auto
  finally show ?case by auto
qed

lemma arbitrage_guard_distinct:
  assumes "ph \<noteq> 0" "capacity hw \<noteq> 0" "distinct ds"
  shows "(\<exists>k. fst (Model_init hw ds ph ci cl h) = Inl (ValueError k)) =
           (\<exists>r\<in>set ds. price_buy (h r) < price_sell (h r))"
proof (cases "first_violation 0 ds h")
  case None
  with Model_init_ok[OF assms(1,2) None, of ci cl] first_violation_distinct[OF assms(3), of 0 h]
  show ?thesis by simp
next
  case (Some k)
  with Model_init_violation[OF assms(1,2) Some, of ci cl] first_violation_distinct[OF assms(3), of 0 h]
  show ?thesis by auto
qed

lemma built_load_var:
  assumes "i < length ds"
  shows "svars (solver (built hw ds ph ci cl h)) ! l_out_v i =
           \<lparr>v_lb = Fin (load (h (ds ! i))), v_ub = Fin (load (h (ds ! i)) / ph),
            v_name = Indexed ''ld'' i\<rparr>"
  using built_var'[OF assms, of 7 hw ph ci cl h]
  by (simp add: l_out_v_def period_vars_def price_fix_def)



lemma propose_built_Nil:
  "fst (propose eng soc (built hw [] ph ci cl h)) = Inl AttributeError"
  by (simp add: propose_def Solve_def built_fields Let_def split: prod.splits)

lemma proposed_built_Nil:
  "fst (proposed eng soc (built hw [] ph ci cl h)) = []"
  by (simp add: proposed_def Solve_def built_fields Let_def split: prod.splits)

lemma propose_proposed_state:
  "snd (proposed eng soc self) = snd (propose eng soc self)"
  by (simp add: proposed_def propose_def Solve_def Let_def split: prod.splits)

section \<open>The claims\<close>

text \<open>
  C1. For a forecast of \<open>N\<close> points and every period \<open>i < N\<close>, the constructed model
  holds the battery-balance relation of period \<open>i\<close>: an equality constraint (both bounds 0)
  with coefficient 1 on the previous charge (\<open>b_init\<close> for period 0, else the \<open>cap\<close>
  variable of period \<open>i - 1\<close>), \<open>batt_eff_chg\<close> on \<open>bc{i}\<close>, -1 on \<open>bd{i}\<close>, -1 on the
  period's own \<open>cap\<close> variable \<open>b{i}\<close>, and 0 on every other variable.
\<close>

theorem C1_battery_balance:
  assumes "Model_init hw ds ph ci cl h = (Inr m, h')" and "i < length ds"
  shows "sconstrs (solver m) ! (battery (constraints m) ! i) =
           \<lparr>c_lb = 0, c_ub = 0,
            coef = (\<lambda>_. 0)((if i = 0 then cap_init m else caps m ! (i - 1)) := 1,
                              b_chg_v i := batt_eff_chg hw, b_dis_v i := - 1,
                              caps m ! i := - 1)\<rparr>
         \<and> length (battery (constraints m)) = length ds
         \<and> v_name (svars (solver m) ! cap_init m) = Name ''b_init''
         \<and> v_name (svars (solver m) ! (caps m ! i)) = Indexed ''b'' i
         \<and> v_name (svars (solver m) ! b_chg_v i) = Indexed ''bc'' i
         \<and> v_name (svars (solver m) ! b_dis_v i) = Indexed ''bd'' i"
proof -
  from Model_init_built[OF assms(1)] have m: "m = built hw ds ph ci cl h" by simp
  have prev: "(if i = 0 then cap_init m else caps m ! (i - 1)) = (if i = 0 then 0 else 10 * i - 9)"
    using assms(2) by (auto simp: m built_fields idxs_nth)
  have row: "sconstrs (solver m) ! (battery (constraints m) ! i) =
               battery_row hw (10 * i + 1) (if i = 0 then 0 else 10 * i - 9)"
    using built_row[OF assms(2), of 0 hw ph ci cl h] assms(2)
    by (simp add: m built_handles period_rows_def)
  have cap: "caps m ! i = 10 * i + 1"
    using assms(2) by (simp add: m built_handles cap_v_def)
  have names: "v_name (svars (solver m) ! cap_init m) = Name ''b_init''"
    "v_name (svars (solver m) ! (10 * i + 1)) = Indexed ''b'' i"
    "v_name (svars (solver m) ! b_chg_v i) = Indexed ''bc'' i"
    "v_name (svars (solver m) ! b_dis_v i) = Indexed ''bd'' i"
    using built_var_names(1-3)[OF assms(2), of hw ph ci cl h]
    by (simp_all add: m built_fields(6) built_var0 init_var_def cap_v_def)
  have len: "length (battery (constraints m)) = length ds"
    by (simp add: m built_fields length_idxs)
  show ?thesis
    unfolding row prev cap
    using names len by (simp add: battery_row_def b_chg_v_def b_dis_v_def eval_nat_numeral)
qed

theorem C1_battery_balance_witness:
  "Model_init hw_demo [0, 1] 1 1 2 heap_demo = (Inr m_demo, heap_after [0, 1] heap_demo)
   \<and> sconstrs (solver m_demo) ! (battery (constraints m_demo) ! 1) =
         \<lparr>c_lb = 0, c_ub = 0, coef = (\<lambda>_. 0)(1 := 1, 12 := 0.95, 13 := - 1, 11 := - 1)\<rparr>"
  using C1_battery_balance[OF Model_init_demo, of 1] Model_init_demo
  by (simp add: m_demo_def built_fields var_defs hw_demo_def eval_nat_numeral)



text \<open>
  C3. The objective is a maximisation whose coefficient is 1 on every money variable and 0 on
  every other variable, so the charge valuations are no objective terms. They are
  coefficients in the money relations: for period \<open>i < N\<close> the coefficient of the period's
  \<open>cap\<close> variable in the period's money relation is \<open>chg_last / capacity\<close> for the last
  period and \<open>chg_inter / capacity\<close> for every earlier one (for a single period, only
  \<open>chg_last / capacity\<close>).
\<close>

theorem C3_objective_and_charge_valuation:
  assumes "Model_init hw ds ph ci cl h = (Inr m, h')" and "i < length ds"
  shows "obj_max (solver m)
         \<and> obj_coef (solver m) = (\<lambda>v. if v \<in> set (moneys m) then 1 else 0)
         \<and> moneys m ! i = money_v i \<and> length (moneys m) = length ds
         \<and> v_name (svars (solver m) ! money_v i) = Indexed ''pr'' i
         \<and> coef (sconstrs (solver m) ! (price (constraints m) ! i)) (caps m ! i) =
             (if Suc i = length ds then chg_last m / capacity (hardware m)
              else chg_inter m / capacity (hardware m))
         \<and> chg_last m = cl \<and> chg_inter m = ci \<and> hardware m = hw"
proof -
  from Model_init_built[OF assms(1)] have m: "m = built hw ds ph ci cl h" by simp
  have "objs 10 (length ds) (\<lambda>_. 0) v = (if v \<in> set (idxs 10 10 (length ds)) then 1 else 0)" for v
    by (auto simp: objs_apply set_idxs)
  then have obj: "obj_coef (solver m) = (\<lambda>v. if v \<in> set (moneys m) then 1 else 0)"
    by (simp add: m built_solver built_fields fun_eq_iff)
  have inj: "coef (sconstrs (solver m) ! (price (constraints m) ! i)) (caps m ! i) =
             (if Suc i = length ds then cl / capacity hw else ci / capacity hw)"
    using built_price_row[OF assms(2), of hw ph ci cl h] assms(2)
    by (simp add: m built_handles set_coef_def cap_v_def)
  have mon: "moneys m ! i = money_v i"
    using assms(2) by (simp add: m built_handles)
  show ?thesis
    using obj inj mon assms(2) built_var_names(10)[OF assms(2), of hw ph ci cl h]
    by (simp add: m built_solver built_fields length_idxs)
qed

theorem C3_objective_and_charge_valuation_witness:
  "Model_init hw_demo [0, 1] 1 1 2 heap_demo = (Inr m_demo, heap_after [0, 1] heap_demo)
   \<and> obj_max (solver m_demo)
   \<and> obj_coef (solver m_demo) = (\<lambda>v. if v \<in> {10, 20} then 1 else 0)
   \<and> coef (sconstrs (solver m_demo) ! (price (constraints m_demo) ! 0)) (caps m_demo ! 0) = 1 / 10000
   \<and> coef (sconstrs (solver m_demo) ! (price (constraints m_demo) ! 1)) (caps m_demo ! 1) = 2 / 10000"
  using C3_objective_and_charge_valuation[OF Model_init_demo, of 0]
    C3_objective_and_charge_valuation[OF Model_init_demo, of 1] Model_init_demo
  by (simp add: m_demo_def built_fields hw_demo_def eval_nat_numeral)

text \<open>
  C4. On a model built from a non-empty forecast, \<open>propose(soc)\<close> sets the lower and the
  upper bound of the initial-charge constraint (coefficient 1 on \<open>b_init\<close>) to
  \<open>soc * capacity\<close>, solves, and returns the tuple
  \<open>((gi0 - go0) * per_hour, b0 / capacity, pr0)\<close> of the solution values of period 0's
  variables; the model keeps the rebound solver with the new solution.
\<close>

theorem C4_propose:
  assumes "Model_init hw ds ph ci cl h = (Inr m, h')" and "ds \<noteq> []"
  shows "propose eng soc m =
           (Inr ((snd (eng (rebind soc m)) (g_in_v 0) - snd (eng (rebind soc m)) (g_out_v 0)) * ph,
                 snd (eng (rebind soc m)) (cap_v 0) / capacity hw,
                 snd (eng (rebind soc m)) (money_v 0)),
            m\<lparr>solver := (rebind soc m)\<lparr>solution := snd (eng (rebind soc m))\<rparr>\<rparr>)
         \<and> sconstrs (rebind soc m) ! constr_init m =
             \<lparr>c_lb = soc * capacity hw, c_ub = soc * capacity hw,
              coef = (\<lambda>_. 0)(cap_init m := 1)\<rparr>
         \<and> g_in m = Some (g_ins m ! 0) \<and> g_out m = Some (g_outs m ! 0)
         \<and> cap m = Some (caps m ! 0) \<and> money m = Some (moneys m ! 0)
         \<and> g_ins m ! 0 = g_in_v 0 \<and> g_outs m ! 0 = g_out_v 0
         \<and> caps m ! 0 = cap_v 0 \<and> moneys m ! 0 = money_v 0"
proof -
  from Model_init_built[OF assms(1)] have m: "m = built hw ds ph ci cl h" by simp
  from Model_init_success[OF assms] have c: "capacity hw \<noteq> 0" by simp
  from assms(2) have pos: "0 < length ds" by simp
  have handles: "g_ins m ! 0 = g_in_v 0" "g_outs m ! 0 = g_out_v 0"
    "caps m ! 0 = cap_v 0" "moneys m ! 0 = money_v 0"
    by (simp_all add: m built_handles[OF pos])
  have attrs: "g_in m = Some (g_in_v 0)" "g_out m = Some (g_out_v 0)"
    "cap m = Some (cap_v 0)" "money m = Some (money_v 0)"
    using assms(2) by (simp_all add: m built_fields var_defs)
  have row: "sconstrs (rebind soc m) ! constr_init m =
             \<lparr>c_lb = soc * capacity hw, c_ub = soc * capacity hw,
              coef = (\<lambda>_. 0)(cap_init m := 1)\<rparr>"
    by (simp add: m rebind_built built_fields)
  have "propose eng soc m =
           (Inr ((snd (eng (rebind soc m)) (g_in_v 0) - snd (eng (rebind soc m)) (g_out_v 0)) * ph,
                 snd (eng (rebind soc m)) (cap_v 0) / capacity hw,
                 snd (eng (rebind soc m)) (money_v 0)),
            m\<lparr>solver := (rebind soc m)\<lparr>solution := snd (eng (rebind soc m))\<rparr>\<rparr>)"
    unfolding m by (simp add: propose_built[OF assms(2) c] var_defs)
  with row handles attrs show ?thesis by simp
qed

theorem C4_propose_witness:
  "Model_init hw_demo [0, 1] 1 1 2 heap_demo = (Inr m_demo, heap_after [0, 1] heap_demo)
   \<and> fst (propose engine_demo 0.5 m_demo) = Inr (- 1500, 0.5, 150)
   \<and> c_lb (sconstrs (rebind 0.5 m_demo) ! constr_init m_demo) = 5000
   \<and> c_ub (sconstrs (rebind 0.5 m_demo) ! constr_init m_demo) = 5000"
  using C4_propose[OF Model_init_demo, of engine_demo "0.5"] Model_init_demo
  by (simp add: engine_demo_def var_defs hw_demo_def)

text \<open>
  C5, evaluated where it fails. A point with \<open>price_buy = price_sell = -1\<close> has no buy price
  below its sell price. Listed once, construction succeeds and leaves the object with
  \<open>price_buy = -1.001\<close>, below \<open>price_sell\<close>: multiplying by 1.001 lowers a negative price.
  Listed twice (the same object), the second visit finds \<open>-1.001 < -1\<close> and construction
  raises \<open>ValueError\<close> at period 1. A point with the dataclass defaults (both prices 0) keeps
  \<open>price_buy = price_sell = 0\<close>: the tie is not broken.
\<close>

theorem C5_negative_tie_evaluation:
  "fst (Model_init hw_demo [0, 0] 1 0 0 heap_neg) = Inl (ValueError 1)
   \<and> \<not> price_buy (heap_neg 0) < price_sell (heap_neg 0)
   \<and> \<not> isl (fst (Model_init hw_demo [0] 1 0 0 heap_neg))
   \<and> price_buy (snd (Model_init hw_demo [0] 1 0 0 heap_neg) 0) = - 1.001
   \<and> price_sell (snd (Model_init hw_demo [0] 1 0 0 heap_neg) 0) = - 1
   \<and> \<not> isl (fst (Model_init hw_demo [0] 1 0 0 heap_default))
   \<and> price_buy (snd (Model_init hw_demo [0] 1 0 0 heap_default) 0) = 0
   \<and> price_sell (snd (Model_init hw_demo [0] 1 0 0 heap_default) 0) = 0"
proof -
  have ph: "(1::real) \<noteq> 0" and c: "capacity hw_demo \<noteq> 0"
    by (simp_all add: hw_demo_def)
  have "first_violation 0 [0, 0] heap_neg = Some 1"
    by (simp add: heap_neg_def price_fix_def)
  from Model_init_violation[OF ph c this, of 0 0]
  have a: "fst (Model_init hw_demo [0, 0] 1 0 0 heap_neg) = Inl (ValueError 1)" .
  have "first_violation 0 [0] heap_neg = None"
    by (simp add: heap_neg_def)
  from Model_init_ok[OF ph c this, of 0 0]
  have b: "Model_init hw_demo [0] 1 0 0 heap_neg =
             (Inr (built hw_demo [0] 1 0 0 heap_neg), heap_after [0] heap_neg)" .
  have "first_violation 0 [0] heap_default = None"
    by (simp add: heap_default_def)
  from Model_init_ok[OF ph c this, of 0 0]
  have d: "Model_init hw_demo [0] 1 0 0 heap_default =
             (Inr (built hw_demo [0] 1 0 0 heap_default), heap_after [0] heap_default)" .
  show ?thesis
    unfolding a b d by (simp add: heap_neg_def heap_default_def price_fix_def)
qed

text \<open>
  C6, as stated, fails: \<open>propose\<close> and \<open>proposed\<close> never look at the status \<open>Solve()\<close>
  returns. With an engine that reports the problem infeasible and leaves the solution values
  untouched, both return the stale values (0, 0, 0) of a solver that has never solved.
\<close>

theorem C6_status_not_checked_counterexample:
  "fst (engine_stale (rebind 0 m_demo)) = INFEASIBLE
   \<and> fst (propose engine_stale 0 m_demo) = Inr (0, 0, 0)
   \<and> hd (fst (proposed engine_stale 0 m_demo)) = Inr (0, 0, 0)"
proof -
  let ?x = "snd (engine_stale (rebind 0 m_demo))"
  have ne: "[0::nat, 1] \<noteq> []" and c: "capacity hw_demo \<noteq> 0"
    by (simp_all add: hw_demo_def)
  have sol: "?x = (\<lambda>_. 0)"
    by (simp add: engine_stale_def rebind_fields m_demo_def built_solution)
  have p: "propose engine_stale 0 m_demo =
             (Inr ((?x 8 - ?x 9) * 1, ?x 1 / capacity hw_demo, ?x 10),
              m_demo\<lparr>solver := (rebind 0 m_demo)\<lparr>solution := ?x\<rparr>\<rparr>)"
    unfolding m_demo_def by (rule propose_built[OF ne c])
  obtain rest where q: "proposed engine_stale 0 m_demo =
             (Inr ((?x 8 - ?x 9) * 1, ?x 1 / capacity hw_demo, ?x 10) # rest,
              m_demo\<lparr>solver := (rebind 0 m_demo)\<lparr>solution := ?x\<rparr>\<rparr>)"
    using proposed_built[OF ne c, of engine_stale 0 1 1 2 heap_demo] unfolding m_demo_def by blast
  have "fst (engine_stale (rebind 0 m_demo)) = INFEASIBLE"
    by (simp add: engine_stale_def)
  moreover have "fst (propose engine_stale 0 m_demo) = Inr (0, 0, 0)"
    unfolding p sol by simp
  moreover have "hd (fst (proposed engine_stale 0 m_demo)) = Inr (0, 0, 0)"
    unfolding q sol by simp
  ultimately show ?thesis by simp
qed

text \<open>
  C6, amended. On a model built from a non-empty forecast, the result of \<open>propose(soc)\<close> and
  of \<open>proposed(soc)\<close> does not depend on the status the solver reports: an engine reporting
  any status \<open>st\<close> with the same solution values gives the same tuples, and neither entry
  point raises.
\<close>

theorem C6_status_is_discarded:
  assumes "Model_init hw ds ph ci cl h = (Inr m, h')" and "ds \<noteq> []"
  shows "fst (propose (\<lambda>s. (st, snd (eng s))) soc m) = fst (propose eng soc m)
         \<and> fst (proposed (\<lambda>s. (st, snd (eng s))) soc m) = fst (proposed eng soc m)
         \<and> \<not> isl (fst (propose eng soc m))
         \<and> (\<forall>t\<in>set (fst (proposed eng soc m)). \<not> isl t)"
proof -
  from Model_init_built[OF assms(1)] have m: "m = built hw ds ph ci cl h" by simp
  from Model_init_success[OF assms] have c: "capacity hw \<noteq> 0" by simp
  have "\<not> isl (fst (propose eng soc m))"
    unfolding m by (simp add: propose_built[OF assms(2) c])
  moreover have "\<forall>t\<in>set (fst (proposed eng soc m)). \<not> isl t"
  proof -
    have "capacity (hardware (snd (proposed eng soc m))) \<noteq> 0"
      using c by (simp add: proposed_hardware m built_fields)
    from yield_all_ok[OF this] show ?thesis
      by (simp add: proposed_def Solve_def Let_def split: prod.splits)
  qed
  ultimately show ?thesis
    by (simp add: propose_status proposed_status)
qed

theorem C6_status_is_discarded_witness:
  "Model_init hw_demo [0, 1] 1 1 2 heap_demo = (Inr m_demo, heap_after [0, 1] heap_demo)
   \<and> fst (propose (\<lambda>s. (OPTIMAL, snd (engine_stale s))) 0 m_demo) = fst (propose engine_stale 0 m_demo)
   \<and> \<not> isl (fst (propose engine_stale 0 m_demo))"
  using C6_status_is_discarded[OF Model_init_demo, of OPTIMAL engine_stale 0] Model_init_demo
  by simp

text \<open>
  C7, evaluated where it fails. With \<open>per_hour = 2\<close> and a forecast load of 500, the variable
  \<open>ld0\<close> is created with lower bound 500 and upper bound 250: the upper bound is
  \<open>dt.load / per_hour\<close>, the lower bound \<open>dt.load\<close>.
\<close>

theorem C7_load_bounds_evaluation:
  "map_sum id (\<lambda>m. (v_lb (svars (solver m) ! l_out_v 0), v_ub (svars (solver m) ! l_out_v 0)))
     (fst (Model_init hw_demo [0] 2 0 0 heap_demo)) = Inr (Fin 500, Fin 250)"
proof -
  have ph: "(2::real) \<noteq> 0" and c: "capacity hw_demo \<noteq> 0"
    by (simp_all add: hw_demo_def)
  have "first_violation 0 [0] heap_demo = None"
    by (simp add: heap_demo_def)
  from Model_init_ok[OF ph c this, of 0 0]
  have b: "Model_init hw_demo [0] 2 0 0 heap_demo =
             (Inr (built hw_demo [0] 2 0 0 heap_demo), heap_after [0] heap_demo)" .
  have l: "(0::nat) < length [0::nat]" by simp
  show ?thesis
    unfolding b by (simp add: built_load_var[OF l] heap_demo_def)
qed

text \<open>
  C8. On a model built from a non-empty forecast, \<open>proposed(soc)\<close> yields at least one
  element, and its first element is the tuple \<open>propose(soc)\<close> returns on the same model and
  the same \<open>soc\<close>. (On a model built from an empty forecast \<open>proposed\<close> yields nothing and
  \<open>propose\<close> raises \<open>AttributeError\<close>.) Both leave the model in the same state.
\<close>

theorem C8_first_of_proposed:
  assumes "Model_init hw ds ph ci cl h = (Inr m, h')"
  shows "(ds \<noteq> [] \<longrightarrow> fst (proposed eng soc m) \<noteq> []
                      \<and> hd (fst (proposed eng soc m)) = fst (propose eng soc m))
         \<and> (ds = [] \<longrightarrow> fst (proposed eng soc m) = []
                      \<and> fst (propose eng soc m) = Inl AttributeError)
         \<and> snd (proposed eng soc m) = snd (propose eng soc m)"
proof -
  from Model_init_built[OF assms(1)] have m: "m = built hw ds ph ci cl h" by simp
  have "fst (proposed eng soc m) \<noteq> [] \<and> hd (fst (proposed eng soc m)) = fst (propose eng soc m)"
    if ne: "ds \<noteq> []"
  proof -
    from Model_init_success[OF assms ne] have c: "capacity hw \<noteq> 0" by simp
    from proposed_built[OF ne c, of eng soc ph ci cl h] obtain rest where
      "proposed eng soc (built hw ds ph ci cl h) =
         (fst (propose eng soc (built hw ds ph ci cl h)) # rest,
          snd (propose eng soc (built hw ds ph ci cl h)))"
      by (auto simp: propose_built[OF ne c])
    then show ?thesis by (simp add: m)
  qed
  moreover have "fst (proposed eng soc m) = [] \<and> fst (propose eng soc m) = Inl AttributeError"
    if "ds = []"
    using that by (simp add: m propose_built_Nil proposed_built_Nil)
  ultimately show ?thesis
    by (simp add: propose_proposed_state)
qed

theorem C8_first_of_proposed_witness:
  "Model_init hw_demo [0, 1] 1 1 2 heap_demo = (Inr m_demo, heap_after [0, 1] heap_demo)
   \<and> fst (proposed engine_demo 0.5 m_demo) \<noteq> []
   \<and> hd (fst (proposed engine_demo 0.5 m_demo)) = fst (propose engine_demo 0.5 m_demo)"
  using C8_first_of_proposed[OF Model_init_demo, of engine_demo "0.5"] Model_init_demo
  by simp



text \<open>
  C10. If a forecast point of the sequence has equal buy and sell prices, then after a
  successful construction the caller's object itself holds \<open>price_buy * 1.001\<close>; the model
  keeps the caller's sequence of references, not copies.
\<close>

theorem C10_forecast_mutated_in_place:
  assumes "Model_init hw ds ph ci cl h = (Inr m, h')" and "r \<in> set ds"
    and "price_buy (h r) = price_sell (h r)"
  shows "h' r = (h r)\<lparr>price_buy := price_buy (h r) * 1.001\<rparr> \<and> data m = ds"
  using Model_init_built[OF assms(1)] assms(2,3)
  by (simp add: heap_after_in price_fix_def built_fields)

theorem C10_forecast_mutated_in_place_witness:
  "Model_init hw_demo [0, 1] 1 1 2 heap_demo = (Inr m_demo, heap_after [0, 1] heap_demo)
   \<and> heap_after [0, 1] heap_demo 1 = \<lparr>price_buy = 0.2002, price_sell = 0.2, load = 400, pv = 0\<rparr>
   \<and> heap_demo 1 = \<lparr>price_buy = 0.2, price_sell = 0.2, load = 400, pv = 0\<rparr>"
  using C10_forecast_mutated_in_place[OF Model_init_demo, of 1] Model_init_demo
  by (simp add: heap_demo_def)

end
